theory Spec2Isabelle
  imports Main "HOL-Library.AList" "HOL-Library.Char_ord" "HOL-Library.List_Lexorder"
begin

section \<open>Data model of the snapshot manager\<close>

text \<open>
  The embedding follows \<^verbatim>\<open>internal/core/test-worker/SnapshotManager.ts\<close>.
  A JavaScript string is a \<^typ>\<open>string\<close>: one \<^typ>\<open>char\<close> per code unit (the code
  units below 256). The two \<^verbatim>\<open>Map\<close>s of the manager are partial functions: the
  manager reads them by key and writes them by key, and the one loop over them
  (\<^verbatim>\<open>getModifiedSnapshots\<close>) treats every key alike. The maps that
  \<^verbatim>\<open>buildSnapshot\<close> builds and then lists by key are association lists, in
  insertion order.
\<close>

record SnapshotEntry =
  testName :: string
  entryName :: string
  language :: "string option"
  "value" :: string
  used :: bool

text \<open>
  The type \<^verbatim>\<open>Snapshot\<close>. Its field \<^verbatim>\<open>used\<close> is \<open>snapshot_used\<close> here, as
  \<open>used\<close> is the field of an entry.
\<close>

record Snapshot =
  existsOnDisk :: bool
  snapshot_used :: bool
  raw :: string
  entries :: "string \<rightharpoonup> SnapshotEntry"

definition SNAPSHOT_EXT :: string where
  "SNAPSHOT_EXT = ''.test.md''"

definition buildEntriesKey :: "string \<Rightarrow> string \<Rightarrow> string" where
  "buildEntriesKey tn en = tn @ ''#'' @ en"

text \<open>
  A value of type \<^verbatim>\<open>unknown\<close>. The manager only tells strings, numbers, booleans,
  \<^verbatim>\<open>null\<close> and \<^verbatim>\<open>undefined\<close> from everything else and never computes with a
  number, so numbers (\<open>'n\<close>) and all other values (\<open>'o\<close>) are carried as they are.
\<close>

datatype ('n, 'o) jsvalue =
    JUndefined
  | JNull
  | JBoolean bool
  | JNumber 'n
  | JString string
  | JOther 'o

record ('n, 'o) InlineSnapshotUpdate =
  line :: nat
  column :: nat
  snapshot :: "('n, 'o) jsvalue"

text \<open>The two fields of a V8 \<^verbatim>\<open>ErrorFrame\<close> that the manager reads.\<close>

record ErrorFrame =
  lineNumber :: "nat option"
  columnNumber :: "nat option"

datatype status = MATCH | NO_MATCH | UPDATE

text \<open>
  The run-wide options: \<^verbatim>\<open>runner.globalOptions\<close>, of which the manager reads two
  flags.
\<close>

record TestServerRunnerOptions =
  updateSnapshots :: bool
  freezeSnapshots :: bool

text \<open>
  The fields of the class, for paths of type \<open>'p\<close>. \<open>partial\<close> is
  \<^verbatim>\<open>this.runner.options.partial\<close>. The file locker is left out: the embedding runs
  one call at a time.
\<close>

record ('p, 'n, 'o) SnapshotManager =
  inlineSnapshotsUpdates :: "('n, 'o) InlineSnapshotUpdate list"
  snapshots :: "'p \<rightharpoonup> Snapshot"
  defaultSnapshotPath :: 'p
  options :: TestServerRunnerOptions
  partial :: bool

text \<open>
  Everything the manager throws. \<open>SNAPSHOT_PARSE_ERROR\<close> is a diagnostic of the parser
  (its description and the line it points at); \<open>EXPECTED_CODE_BLOCK_AFTER_HEADING\<close> is the
  one that \<^verbatim>\<open>loadSnapshot\<close> raises itself, with the location of the heading;
  \<open>NO_LINE_OR_COLUMN\<close> is \<^verbatim>\<open>new Error("Call frame has no line or column")\<close>.
\<close>

datatype error =
    SNAPSHOT_PARSE_ERROR string nat
  | EXPECTED_CODE_BLOCK_AFTER_HEADING nat
  | NO_LINE_OR_COLUMN

text \<open>
  The nodes that \<^verbatim>\<open>parseSnapshot\<close> returns: a heading with its level, text and
  location, or a code block with its language, text and location. A location is the
  line the node starts at.
\<close>

datatype node =
    Heading nat string nat
  | CodeBlock "string option" string nat

text \<open>
  What the manager imports and this repository's sources do not hold here: the path
  operations of \<^verbatim>\<open>@internal/path\<close> (\<open>resolve f\<close> is
  \<^verbatim>\<open>this.runner.path.getParent().resolve(f)\<close>), the file system of
  \<^verbatim>\<open>@internal/fs\<close>, and the parser (\<open>parseSnapshot path input\<close> is
  \<^verbatim>\<open>parseSnapshot(createSnapshotParser({path, input}))\<close>). They are parameters of the
  operations that call them.
\<close>

record 'p externals =
  resolve :: "string \<Rightarrow> 'p"
  getExtensions :: "'p \<Rightarrow> string"
  addExtension :: "'p \<Rightarrow> string \<Rightarrow> 'p"
  exists :: "'p \<Rightarrow> bool"
  readFileText :: "'p \<Rightarrow> string"
  parseSnapshot :: "'p \<Rightarrow> string \<Rightarrow> error + node list"

section \<open>Strings\<close>

text \<open>
  \<^verbatim>\<open>String.prototype.trim\<close> removes white space and line terminators from both ends;
  among the code units below 256 these are tab, line feed, vertical tab, form feed,
  carriage return, space and the no-break space.
\<close>

definition isWhiteSpace :: "char \<Rightarrow> bool" where
  "isWhiteSpace c = (c \<in> set [CHR 0x09, CHR 0x0A, CHR 0x0B, CHR 0x0C, CHR 0x0D, CHR 0x20, CHR 0xA0])"

definition trim :: "string \<Rightarrow> string" where
  "trim s = rev (dropWhile isWhiteSpace (rev (dropWhile isWhiteSpace s)))"

definition endsWith :: "string \<Rightarrow> string \<Rightarrow> bool" where
  "endsWith s suf = (length suf \<le> length s \<and> drop (length s - length suf) s = suf)"

text \<open>
  \<^verbatim>\<open>cleanHeading\<close>: \<^verbatim>\<open>key[0]\<close> and \<^verbatim>\<open>key[key.length - 1]\<close> of the empty string
  are \<^verbatim>\<open>undefined\<close>, which is no backtick.
\<close>

definition cleanHeading :: "string \<Rightarrow> string" where
  "cleanHeading key =
    (let key1 = (if key \<noteq> [] \<and> hd key = CHR 0x60 then tl key else key);
         key2 = (if key1 \<noteq> [] \<and> last key1 = CHR 0x60 then butlast key1 else key1)
     in trim key2)"

section \<open>Loading a snapshot\<close>

text \<open>
  The inner loop of \<^verbatim>\<open>loadSnapshot\<close>, entered after a heading of level 2 with the
  cleaned test name. It returns the error thrown (if any), the entries map as the
  loop left it, and the nodes not yet taken. A level-3 heading takes the node after
  it, which must be a code block. A bare code block becomes the entry \<^verbatim>\<open>"0"\<close> and ends
  the loop; any other node ends the loop and stays in the list.
\<close>

fun walkTest ::
  "string \<Rightarrow> (string \<rightharpoonup> SnapshotEntry) \<Rightarrow> node list
    \<Rightarrow> error option \<times> (string \<rightharpoonup> SnapshotEntry) \<times> node list" where
  "walkTest tn ents [] = (None, ents, [])"
| "walkTest tn ents (Heading level txt loc # nodes) =
    (if level = 3 then
       (case nodes of
          CodeBlock lang code _ # nodes' \<Rightarrow>
            walkTest tn
              (ents(buildEntriesKey tn (cleanHeading txt) \<mapsto>
                 \<lparr>testName = tn, entryName = cleanHeading txt, language = lang,
                  value = code, used = False\<rparr>))
              nodes'
        | _ \<Rightarrow> (Some (EXPECTED_CODE_BLOCK_AFTER_HEADING loc), ents, tl nodes))
     else (None, ents, Heading level txt loc # nodes))"
| "walkTest tn ents (CodeBlock lang code loc # nodes) =
    (None,
     ents(buildEntriesKey tn ''0'' \<mapsto>
       \<lparr>testName = tn, entryName = ''0'', language = lang, value = code, used = False\<rparr>),
     nodes)"

lemma walkTest_length:
  "walkTest tn ents nodes = (r, ents', nodes') \<Longrightarrow> length nodes' \<le> length nodes"
proof (induction tn ents nodes arbitrary: r ents' nodes' rule: walkTest.induct)
  case (1 tn ents)
  then show ?case by simp
next
  case (2 tn ents level ht loc nodes)
  show ?case
  proof (cases "level = 3")
    case False
    with 2 show ?thesis by auto
  next
    case True
    show ?thesis
    proof (cases nodes)
      case Nil
      with True 2 show ?thesis by auto
    next
      case (Cons n ns)
      show ?thesis
      proof (cases n)
        case (Heading l t k)
        with True Cons 2 show ?thesis by auto
      next
        case (CodeBlock lang code k)
        with True Cons 2(2) have
          "walkTest tn
             (ents(buildEntriesKey tn (cleanHeading ht) \<mapsto>
                \<lparr>testName = tn, entryName = cleanHeading ht, language = lang,
                 value = code, used = False\<rparr>)) ns = (r, ents', nodes')"
          by simp
        from 2(1)[OF True Cons CodeBlock this] Cons show ?thesis by simp
      qed
    qed
  qed
next
  case (3 tn ents lang code loc nodes)
  then show ?case by auto
qed

text \<open>
  The outer loop: a level-1 heading is the title and is skipped, a level-2 heading
  opens a test and runs the inner loop, every other node is dropped.
\<close>

function walkNodes ::
  "(string \<rightharpoonup> SnapshotEntry) \<Rightarrow> node list \<Rightarrow> error option \<times> (string \<rightharpoonup> SnapshotEntry)" where
  "walkNodes ents [] = (None, ents)"
| "walkNodes ents (CodeBlock lang code loc # nodes) = walkNodes ents nodes"
| "walkNodes ents (Heading level txt loc # nodes) =
    (if level = 1 then walkNodes ents nodes
     else if level = 2 then
       (case walkTest (cleanHeading txt) ents nodes of
          (Some e, ents', _) \<Rightarrow> (Some e, ents')
        | (None, ents', nodes') \<Rightarrow> walkNodes ents' nodes')
     else walkNodes ents nodes)"
  by pat_completeness auto
termination
  by (relation "measure (\<lambda>(ents, nodes). length nodes)")
     (auto dest: walkTest_length [OF sym])

text \<open>
  \<^verbatim>\<open>loadSnapshot\<close>, one call run to its end. The result is the exception or the
  returned record (\<open>None\<close> for \<^verbatim>\<open>undefined\<close>), next to the manager as the call
  leaves it. The record is put into \<^verbatim>\<open>this.snapshots\<close> before the nodes are walked
  and the walk writes into that same object, so when the walk throws, the record
  with the entries read so far is what the map holds.
\<close>

definition loadSnapshot ::
  "'p externals \<Rightarrow> ('p, 'n, 'o) SnapshotManager \<Rightarrow> 'p
    \<Rightarrow> (error + Snapshot option) \<times> ('p, 'n, 'o) SnapshotManager" where
  "loadSnapshot ext m path =
    (if \<not> exists ext path then (Inr None, m)
     else
       (case snapshots m path of
          Some loadedSnapshot \<Rightarrow> (Inr (Some loadedSnapshot), m)
        | None \<Rightarrow>
            (let content = readFileText ext path in
             case parseSnapshot ext path content of
               Inl e \<Rightarrow> (Inl e, m)
             | Inr nodes \<Rightarrow>
                 (let snap = \<lparr>existsOnDisk = True, snapshot_used = False,
                               raw = content, entries = Map.empty\<rparr>
                  in case walkNodes Map.empty nodes of
                       (Some e, ents) \<Rightarrow>
                         (Inl e,
                          m\<lparr>snapshots := (snapshots m)(path \<mapsto> snap\<lparr>entries := ents\<rparr>)\<rparr>)
                     | (None, ents) \<Rightarrow>
                         (Inr (Some (snap\<lparr>entries := ents\<rparr>)),
                          m\<lparr>snapshots := (snapshots m)(path \<mapsto> snap\<lparr>entries := ents\<rparr>)\<rparr>)))))"

section \<open>The manager's operations\<close>

definition normalizeSnapshotPath ::
  "'p externals \<Rightarrow> ('p, 'n, 'o) SnapshotManager \<Rightarrow> string option \<Rightarrow> 'p" where
  "normalizeSnapshotPath ext m filename =
    (case filename of
       None \<Rightarrow> defaultSnapshotPath m
     | Some f \<Rightarrow>
         (let path = resolve ext f
          in if endsWith (getExtensions ext path) SNAPSHOT_EXT then path
             else addExtension ext path SNAPSHOT_EXT))"

text \<open>
  \<^verbatim>\<open>getModifiedSnapshots\<close>: every record of the map is copied into the result under
  its path; unless the runner is partial, the copy's entries are those of the record
  without the ones whose \<^verbatim>\<open>used\<close> is false.
\<close>

definition filteredEntries :: "(string \<rightharpoonup> SnapshotEntry) \<Rightarrow> (string \<rightharpoonup> SnapshotEntry)" where
  "filteredEntries ents =
    (\<lambda>name. case ents name of
       None \<Rightarrow> None
     | Some entry \<Rightarrow> if \<not> used entry then None else Some entry)"

definition getModifiedSnapshots :: "('p, 'n, 'o) SnapshotManager \<Rightarrow> ('p \<rightharpoonup> Snapshot)" where
  "getModifiedSnapshots m =
    (\<lambda>name. case snapshots m name of
       None \<Rightarrow> None
     | Some snap \<Rightarrow>
         Some (snap\<lparr>entries :=
           (if \<not> partial m then filteredEntries (entries snap) else entries snap)\<rparr>))"

definition stringOrPrettyFormat ::
  "(('n, 'o) jsvalue \<Rightarrow> string) \<Rightarrow> ('n, 'o) jsvalue \<Rightarrow> string" where
  "stringOrPrettyFormat prettyFormatToString v =
    (case v of JString s \<Rightarrow> s | _ \<Rightarrow> prettyFormatToString v)"

text \<open>
  \<^verbatim>\<open>typeof received\<close> is string, number or boolean, or \<^verbatim>\<open>received === null\<close>.
\<close>

fun isLiteral :: "('n, 'o) jsvalue \<Rightarrow> bool" where
  "isLiteral (JString _) = True"
| "isLiteral (JNumber _) = True"
| "isLiteral (JBoolean _) = True"
| "isLiteral JNull = True"
| "isLiteral _ = False"

text \<open>
  \<^verbatim>\<open>testInlineSnapshot\<close>; the pretty-printer of \<^verbatim>\<open>@internal/pretty-format\<close> is a
  parameter. An \<^verbatim>\<open>expected\<close> that was not passed is \<open>JUndefined\<close>.
\<close>

definition testInlineSnapshot ::
  "(('n, 'o) jsvalue \<Rightarrow> string) \<Rightarrow> ('p, 'n, 'o) SnapshotManager \<Rightarrow> ErrorFrame
    \<Rightarrow> ('n, 'o) jsvalue \<Rightarrow> ('n, 'o) jsvalue
    \<Rightarrow> (error + status) \<times> ('p, 'n, 'o) SnapshotManager" where
  "testInlineSnapshot prettyFormatToString m callFrame received expected =
    (let receivedFormat = stringOrPrettyFormat prettyFormatToString received;
         expectedFormat = stringOrPrettyFormat prettyFormatToString expected
     in if receivedFormat = expectedFormat then (Inr MATCH, m)
        else if updateSnapshots (options m) \<or> expected = JUndefined then
          (case (lineNumber callFrame, columnNumber callFrame) of
             (Some ln, Some cn) \<Rightarrow>
               (if \<not> freezeSnapshots (options m) then
                  (Inr UPDATE,
                   m\<lparr>inlineSnapshotsUpdates := inlineSnapshotsUpdates m @
                      [\<lparr>line = ln, column = cn,
                        snapshot = (if isLiteral received then received
                                    else JString receivedFormat)\<rparr>]\<rparr>)
                else (Inr UPDATE, m))
           | _ \<Rightarrow> (Inl NO_LINE_OR_COLUMN, m))
        else (Inr NO_MATCH, m))"

text \<open>
  \<^verbatim>\<open>get\<close>: the record comes from the map or from \<^verbatim>\<open>loadSnapshot\<close>, which has put
  the object it returns into the map under the same path; marking it (and the entry
  found) as used therefore updates the map at that path.
\<close>

definition get ::
  "'p externals \<Rightarrow> ('p, 'n, 'o) SnapshotManager \<Rightarrow> string \<Rightarrow> string \<Rightarrow> string option
    \<Rightarrow> (error + string option) \<times> ('p, 'n, 'o) SnapshotManager" where
  "get ext m tn en optionalFilename =
    (let snapshotPath = normalizeSnapshotPath ext m optionalFilename
     in case (case snapshots m snapshotPath of
                Some s \<Rightarrow> (Inr (Some s), m)
              | None \<Rightarrow> loadSnapshot ext m snapshotPath) of
          (Inl e, m1) \<Rightarrow> (Inl e, m1)
        | (Inr None, m1) \<Rightarrow> (Inr None, m1)
        | (Inr (Some s), m1) \<Rightarrow>
            (let snap = s\<lparr>snapshot_used := True\<rparr>;
                 m2 = m1\<lparr>snapshots := (snapshots m1)(snapshotPath \<mapsto> snap)\<rparr>
             in if updateSnapshots (options m) then (Inr None, m2)
                else
                  (case entries snap (buildEntriesKey tn en) of
                     None \<Rightarrow> (Inr None, m2)
                   | Some entry \<Rightarrow>
                       (Inr (Some (value entry)),
                        m1\<lparr>snapshots := (snapshots m1)(snapshotPath \<mapsto>
                             snap\<lparr>entries := (entries snap)
                               (buildEntriesKey tn en \<mapsto> entry\<lparr>used := True\<rparr>)\<rparr>)\<rparr>))))"

text \<open>
  \<^verbatim>\<open>set\<close> (\<open>set'\<close> here, next to the \<open>set\<close> of a list), with the fields of its
  argument in the order the source lists them.
\<close>

definition set' ::
  "'p externals \<Rightarrow> ('p, 'n, 'o) SnapshotManager \<Rightarrow> string \<Rightarrow> string \<Rightarrow> string
    \<Rightarrow> string option \<Rightarrow> string option \<Rightarrow> ('p, 'n, 'o) SnapshotManager" where
  "set' ext m tn en v lang optionalFilename =
    (let snapshotPath = normalizeSnapshotPath ext m optionalFilename;
         snap = (case snapshots m snapshotPath of
                   None \<Rightarrow> \<lparr>existsOnDisk = False, snapshot_used = True,
                             raw = '''', entries = Map.empty\<rparr>
                 | Some s \<Rightarrow> s)
     in m\<lparr>snapshots := (snapshots m)(snapshotPath \<mapsto>
          snap\<lparr>entries := (entries snap)(buildEntriesKey tn en \<mapsto>
            \<lparr>testName = tn, entryName = en, language = lang, value = v, used = True\<rparr>)\<rparr>)\<rparr>)"

section \<open>Building the text of a snapshot\<close>

text \<open>\<^verbatim>\<open>lines.join("\n")\<close>.\<close>

fun joinLines :: "string list \<Rightarrow> string" where
  "joinLines [] = []"
| "joinLines [l] = l"
| "joinLines (l # ls) = l @ CHR 0x0A # joinLines ls"

text \<open>
  \<^verbatim>\<open>pushNewline\<close>: the last element of an empty array is \<^verbatim>\<open>undefined\<close>, which
  differs from the empty string.
\<close>

definition pushNewline :: "string list \<Rightarrow> string list" where
  "pushNewline ls = (if ls \<noteq> [] \<and> last ls = [] then ls else ls @ [[]])"

text \<open>
  The first loop: \<^verbatim>\<open>testNameToEntries\<close> maps a test name to the map of its used
  entries by entry name. \<^verbatim>\<open>assert\<close> of the \<^verbatim>\<open>ExtendedMap\<close> returns the map stored
  for the test name, after storing an empty one when there was none.
\<close>

definition addEntry ::
  "(string \<times> (string \<times> SnapshotEntry) list) list \<Rightarrow> SnapshotEntry
    \<Rightarrow> (string \<times> (string \<times> SnapshotEntry) list) list" where
  "addEntry testNameToEntries entry =
    (if \<not> used entry then testNameToEntries
     else
       (let entriesByTestName =
              (case map_of testNameToEntries (testName entry) of
                 None \<Rightarrow> []
               | Some es \<Rightarrow> es)
        in AList.update (testName entry)
             (AList.update (entryName entry) entry entriesByTestName) testNameToEntries))"

text \<open>
  \<^verbatim>\<open>Array.prototype.sort\<close> with a comparison function, as a stable insertion sort:
  an element goes before the first one it does not compare greater than. The
  comparison \<^verbatim>\<open>naturalCompare\<close> of \<^verbatim>\<open>@internal/string-utils\<close> is a parameter.
  Without a comparison function, \<^verbatim>\<open>sort\<close> orders strings by their code units,
  which is the order of \<^typ>\<open>string\<close>.
\<close>

fun insertBy :: "('a \<Rightarrow> 'a \<Rightarrow> int) \<Rightarrow> 'a \<Rightarrow> 'a list \<Rightarrow> 'a list" where
  "insertBy cmp x [] = [x]"
| "insertBy cmp x (y # ys) = (if cmp x y \<le> 0 then x # y # ys else y # insertBy cmp x ys)"

definition sortBy :: "('a \<Rightarrow> 'a \<Rightarrow> int) \<Rightarrow> 'a list \<Rightarrow> 'a list" where
  "sortBy cmp xs = foldr (insertBy cmp) xs []"

text \<open>
  The body of the loop over the sorted entry names of one test: \<open>n\<close> is
  \<^verbatim>\<open>entryNames.length\<close>. The names are keys of the map, so the lookup finds an entry.
\<close>

definition pushEntry ::
  "(string \<times> SnapshotEntry) list \<Rightarrow> nat \<Rightarrow> string list \<Rightarrow> string \<Rightarrow> string list" where
  "pushEntry es n ls snapshotName =
    (case map_of es snapshotName of
       None \<Rightarrow> ls
     | Some entry \<Rightarrow>
         (let lang = (case language entry of None \<Rightarrow> [] | Some l \<Rightarrow> l);
              skipHeading = (snapshotName = ''0'' \<and> n = 1);
              ls1 = (if \<not> skipHeading then ls @ [''### `'' @ snapshotName @ ''`''] else ls);
              ls2 = pushNewline ls1;
              ls3 = ls2 @ [''```'' @ lang, value entry, ''```'']
          in pushNewline ls3))"

text \<open>The body of the loop over the sorted test names.\<close>

definition pushTest ::
  "(string \<Rightarrow> string \<Rightarrow> int) \<Rightarrow> (string \<times> (string \<times> SnapshotEntry) list) list
    \<Rightarrow> string list \<Rightarrow> string \<Rightarrow> string list" where
  "pushTest naturalCompare testNameToEntries ls tn =
    (case map_of testNameToEntries tn of
       None \<Rightarrow> ls
     | Some es \<Rightarrow>
         (let ls1 = pushNewline (ls @ [''## `'' @ tn @ ''`'']);
              entryNames = sortBy naturalCompare (map fst es)
          in foldl (pushEntry es (length entryNames)) ls1 entryNames))"

text \<open>
  \<^verbatim>\<open>buildSnapshot\<close>: \<open>basename\<close> is \<^verbatim>\<open>absolute.getBasename()\<close>, \<open>relative\<close> is
  \<^verbatim>\<open>relative.join()\<close>, and the entries come in the order the iterable yields them.
\<close>

definition buildSnapshot ::
  "(string \<Rightarrow> string \<Rightarrow> int) \<Rightarrow> string \<Rightarrow> string \<Rightarrow> SnapshotEntry list \<Rightarrow> string" where
  "buildSnapshot naturalCompare basename relative es =
    (let ls1 = pushNewline [''# `'' @ basename @ ''`''];
         ls2 = pushNewline (ls1 @
           [''**DO NOT MODIFY**. This file has been autogenerated. Run `rome test '' @ relative
              @ '' --update-snapshots` to update.'']);
         testNameToEntries = foldl addEntry [] es;
         testNames = sort (map fst testNameToEntries)
     in joinLines (foldl (pushTest naturalCompare testNameToEntries) ls2 testNames))"

section \<open>The snapshot grammar\<close>

text \<open>
  Modelled from the spec: the parser \<^verbatim>\<open>SnapshotParser.ts\<close>
  (\<^verbatim>\<open>createSnapshotParser\<close>, \<^verbatim>\<open>parseSnapshot\<close>) is not among the sources. The spec
  (4.1 and 6) has it turn the text into the sequence of its headings and code blocks:
  a heading is a line of hashes, their number the level, followed by the heading's
  text; a fenced code block opens with a fence that carries an optional language tag
  right after it, and holds the text between that line and the closing fence; text
  that is neither makes no node. Here the text is read line by line: a block opens at
  a line that starts with three backticks, the rest of that line being the language
  (none when it is empty), and closes at the next line that is three backticks and
  nothing else; a heading's text is what follows the hashes, without the white space
  around it. A code block that is never closed is the parser's error.
\<close>

fun splitLines :: "string \<Rightarrow> string list" where
  "splitLines [] = [[]]"
| "splitLines (c # cs) =
    (if c = CHR 0x0A then [] # splitLines cs
     else (case splitLines cs of [] \<Rightarrow> [[c]] | l # ls \<Rightarrow> (c # l) # ls))"

definition consNode :: "node \<Rightarrow> error + node list \<Rightarrow> error + node list" where
  "consNode n r = (case r of Inl e \<Rightarrow> Inl e | Inr ns \<Rightarrow> Inr (n # ns))"

text \<open>
  \<open>parseLines opened n ls\<close> reads the lines \<open>ls\<close>, the first of which is line \<open>n\<close>.
  \<open>opened\<close> is \<open>None\<close> outside a code block; inside one it holds the line of the opening
  fence, the language and the lines of the block read so far, last first.
\<close>

fun parseLines ::
  "(nat \<times> string option \<times> string list) option \<Rightarrow> nat \<Rightarrow> string list \<Rightarrow> error + node list" where
  "parseLines None n [] = Inr []"
| "parseLines (Some (start, lang, acc)) n [] =
    Inl (SNAPSHOT_PARSE_ERROR ''Unclosed code block'' start)"
| "parseLines None n (l # ls) =
    (if take 3 l = ''```'' then
       parseLines (Some (n, (if drop 3 l = [] then None else Some (drop 3 l)), [])) (Suc n) ls
     else if l \<noteq> [] \<and> hd l = CHR ''#'' then
       consNode
         (Heading (length (takeWhile (\<lambda>c. c = CHR ''#'') l))
            (trim (dropWhile (\<lambda>c. c = CHR ''#'') l)) n)
         (parseLines None (Suc n) ls)
     else parseLines None (Suc n) ls)"
| "parseLines (Some (start, lang, acc)) n (l # ls) =
    (if l = ''```'' then
       consNode (CodeBlock lang (joinLines (rev acc)) start) (parseLines None (Suc n) ls)
     else parseLines (Some (start, lang, l # acc)) (Suc n) ls)"

definition parseSnapshotText :: "string \<Rightarrow> error + node list" where
  "parseSnapshotText input = parseLines None 1 (splitLines input)"

section \<open>Entries that a snapshot file can hold\<close>

text \<open>
  What the round trip asks of an entry. \<open>hasFence v\<close>: the text \<open>v\<close> contains three
  backticks in a row, which \<^verbatim>\<open>buildSnapshot\<close> does not escape. \<open>plainName s\<close>:
  \<open>s\<close> has no white space at its ends, which \<^verbatim>\<open>cleanHeading\<close> would trim, and no
  line feed. \<open>plainEntry e\<close>: the two names of \<open>e\<close> are plain, its language is absent
  or a non-empty string without line feed, and its value has no fence.
\<close>

fun hasFence :: "string \<Rightarrow> bool" where
  "hasFence [] = False"
| "hasFence (c # cs) = (take 3 (c # cs) = ''```'' \<or> hasFence cs)"

definition plainName :: "string \<Rightarrow> bool" where
  "plainName s = (trim s = s \<and> CHR 0x0A \<notin> set s)"

definition plainEntry :: "SnapshotEntry \<Rightarrow> bool" where
  "plainEntry e =
    (plainName (testName e) \<and> plainName (entryName e) \<and>
     (case language e of None \<Rightarrow> True | Some l \<Rightarrow> l \<noteq> [] \<and> CHR 0x0A \<notin> set l) \<and>
     \<not> hasFence (value e))"

section \<open>A manager and a file system to run the operations on\<close>

text \<open>
  A manager for paths that are strings, with the options and the records given, and
  a file system with one file, the default snapshot path, read by the grammar above.
\<close>

definition demoPath :: string where
  "demoPath = ''/d/x.test.md''"

definition demoUsed :: SnapshotEntry where
  "demoUsed = \<lparr>testName = ''t'', entryName = ''a'', language = None, value = ''1'', used = True\<rparr>"

definition demoUnused :: SnapshotEntry where
  "demoUnused = \<lparr>testName = ''t'', entryName = ''b'', language = None, value = ''2'', used = False\<rparr>"

definition demoSnapshot :: Snapshot where
  "demoSnapshot = \<lparr>existsOnDisk = True, snapshot_used = False, raw = [],
     entries = [''t#a'' \<mapsto> demoUsed, ''t#b'' \<mapsto> demoUnused]\<rparr>"

definition demoManager :: "bool \<Rightarrow> bool \<Rightarrow> bool \<Rightarrow> (string \<rightharpoonup> Snapshot) \<Rightarrow> (string, int, unit) SnapshotManager" where
  "demoManager upd frz part snaps =
     \<lparr>inlineSnapshotsUpdates = [], snapshots = snaps, defaultSnapshotPath = demoPath,
      options = \<lparr>updateSnapshots = upd, freezeSnapshots = frz\<rparr>, partial = part\<rparr>"

definition demoExternals :: "string \<Rightarrow> string externals" where
  "demoExternals content =
     \<lparr>resolve = (\<lambda>f. ''/d/'' @ f),
      getExtensions = dropWhile (\<lambda>c. c \<noteq> CHR ''.''),
      addExtension = (\<lambda>p e. p @ e),
      exists = (\<lambda>p. p = demoPath),
      readFileText = (\<lambda>p. content),
      parseSnapshot = (\<lambda>p. parseSnapshotText)\<rparr>"

definition staleSnapshot :: Snapshot where
  "staleSnapshot = \<lparr>existsOnDisk = True, snapshot_used = False, raw = [],
     entries = [''t#b'' \<mapsto> demoUnused]\<rparr>"

text \<open>
  A pretty-printer, a call frame, and the texts of two snapshot files: one whose last
  heading has no code block, one with a single test.
\<close>

definition demoPrettyFormat :: "(int, unit) jsvalue \<Rightarrow> string" where
  "demoPrettyFormat v =
     (case v of
        JUndefined \<Rightarrow> ''undefined''
      | JNull \<Rightarrow> ''null''
      | JBoolean b \<Rightarrow> (if b then ''true'' else ''false'')
      | JNumber n \<Rightarrow> (if n = 0 then ''0'' else ''number'')
      | JString s \<Rightarrow> s
      | JOther u \<Rightarrow> ''Object {}'')"

definition demoFrame :: ErrorFrame where
  "demoFrame = \<lparr>lineNumber = Some 12, columnNumber = Some 4\<rparr>"

definition brokenText :: string where
  "brokenText = ''## `t`\<newline>### `a`\<newline>```\<newline>1\<newline>```\<newline>### `b`''"

definition loadedText :: string where
  "loadedText = ''## `t`\<newline>```\<newline>1\<newline>```''"

text \<open>
  A comparison of entry names, an entry whose test name ends in a blank, and three
  entries of two tests that a snapshot file can hold.
\<close>

definition demoCompare :: "string \<Rightarrow> string \<Rightarrow> int" where
  "demoCompare a b = (if a = b then 0 else if a < b then - 1 else 1)"

definition paddedEntry :: SnapshotEntry where
  "paddedEntry = \<lparr>testName = ''t '', entryName = ''0'', language = None, value = ''1'', used = True\<rparr>"

definition roundTripEntries :: "SnapshotEntry list" where
  "roundTripEntries =
    [\<lparr>testName = ''parses'', entryName = ''10'', language = Some ''js'',
       value = ''let a;\<newline>\<newline>a = `x`;'', used = True\<rparr>,
     \<lparr>testName = ''parses'', entryName = ''0'', language = None, value = '''', used = True\<rparr>,
     \<lparr>testName = ''a b'', entryName = ''0'', language = None, value = ''# `x`'', used = True\<rparr>]"

section \<open>Notions for the round trip\<close>

text \<open>
  The lines that \<^verbatim>\<open>buildSnapshot\<close> pushes: for one entry of a test with \<open>n\<close>
  entries, for the entry found under a name, for a test, and for the head of the
  file.
\<close>

definition entryLines :: "nat \<Rightarrow> string \<Rightarrow> SnapshotEntry \<Rightarrow> string list" where
  "entryLines n name e =
    (if name = ''0'' \<and> n = 1 then [] else [''### `'' @ name @ ''`'', []]) @
    [''```'' @ (case language e of None \<Rightarrow> [] | Some l \<Rightarrow> l), value e, ''```'', []]"

definition entryLinesOf :: "(string \<times> SnapshotEntry) list \<Rightarrow> nat \<Rightarrow> string \<Rightarrow> string list" where
  "entryLinesOf grp n name =
    (case map_of grp name of None \<Rightarrow> [] | Some e \<Rightarrow> entryLines n name e)"

definition testLinesOf ::
  "(string \<Rightarrow> string \<Rightarrow> int) \<Rightarrow> (string \<times> (string \<times> SnapshotEntry) list) list \<Rightarrow> string
    \<Rightarrow> string list" where
  "testLinesOf cmp G t =
    (case map_of G t of
       None \<Rightarrow> []
     | Some grp \<Rightarrow>
         [''## `'' @ t @ ''`'', []] @
         concat (map (entryLinesOf grp (length (sortBy cmp (map fst grp))))
                   (sortBy cmp (map fst grp))))"

definition headerLines :: "string \<Rightarrow> string \<Rightarrow> string list" where
  "headerLines basename relative =
    [''# `'' @ basename @ ''`'', [],
     ''**DO NOT MODIFY**. This file has been autogenerated. Run `rome test '' @ relative
        @ '' --update-snapshots` to update.'', []]"

text \<open>
  What loading stores for an entry, and the entries of a group and of a test in the
  order \<^verbatim>\<open>buildSnapshot\<close> writes them.
\<close>

definition storeEntry :: "(string \<rightharpoonup> SnapshotEntry) \<Rightarrow> SnapshotEntry \<Rightarrow> (string \<rightharpoonup> SnapshotEntry)" where
  "storeEntry ents e = ents(buildEntriesKey (testName e) (entryName e) \<mapsto> e\<lparr>used := False\<rparr>)"

definition groupEntries :: "(string \<times> SnapshotEntry) list \<Rightarrow> string list \<Rightarrow> SnapshotEntry list" where
  "groupEntries grp names =
    concat (map (\<lambda>name. case map_of grp name of None \<Rightarrow> [] | Some e \<Rightarrow> [e]) names)"

definition testEntries ::
  "(string \<Rightarrow> string \<Rightarrow> int) \<Rightarrow> (string \<times> (string \<times> SnapshotEntry) list) list \<Rightarrow> string
    \<Rightarrow> SnapshotEntry list" where
  "testEntries cmp G t =
    (case map_of G t of
       None \<Rightarrow> []
     | Some grp \<Rightarrow> groupEntries grp (sortBy cmp (map fst grp)))"

text \<open>
  \<open>loadsAs rest F\<close>: read from any line number on, the lines \<open>rest\<close> parse to nodes
  that are none or start with a level-2 heading, and the outer loop of
  \<^verbatim>\<open>loadSnapshot\<close> turns any entries map \<open>ents\<close> into \<open>F ents\<close> on them without an
  error. \<open>loadsInTest t rest F\<close>: the same for lines met inside the test \<open>t\<close>, where
  the inner loop runs first.
\<close>

definition loadsAs ::
  "string list \<Rightarrow> ((string \<rightharpoonup> SnapshotEntry) \<Rightarrow> (string \<rightharpoonup> SnapshotEntry)) \<Rightarrow> bool" where
  "loadsAs rest F =
    (\<forall>n. \<exists>ns. parseLines None n rest = Inr ns \<and>
       (ns = [] \<or> (\<exists>ht k. hd ns = Heading 2 ht k)) \<and>
       (\<forall>ents. walkNodes ents ns = (None, F ents)))"

definition loadsInTest ::
  "string \<Rightarrow> string list \<Rightarrow> ((string \<rightharpoonup> SnapshotEntry) \<Rightarrow> (string \<rightharpoonup> SnapshotEntry)) \<Rightarrow> bool" where
  "loadsInTest t rest F =
    (\<forall>n. \<exists>ns. parseLines None n rest = Inr ns \<and>
       (\<forall>ents. \<exists>ents' ns'. walkTest t ents ns = (None, ents', ns') \<and>
          walkNodes ents' ns' = (None, F ents)))"

text \<open>
  \<open>plainGroup t grp\<close>: \<open>grp\<close> is a non-empty map of plain entries of the test \<open>t\<close>,
  each under its entry name. \<open>groupsOf G S\<close>: the map \<open>G\<close> of the first loop of
  \<^verbatim>\<open>buildSnapshot\<close> holds exactly the entries \<open>S\<close>, each under its test name and
  entry name.
\<close>

definition plainGroup :: "string \<Rightarrow> (string \<times> SnapshotEntry) list \<Rightarrow> bool" where
  "plainGroup t grp =
    (grp \<noteq> [] \<and> plainName t \<and>
     (\<forall>name\<in>fst ` set grp. \<exists>e. map_of grp name = Some e \<and> testName e = t \<and>
         entryName e = name \<and> plainEntry e))"

definition groupsOf ::
  "(string \<times> (string \<times> SnapshotEntry) list) list \<Rightarrow> SnapshotEntry set \<Rightarrow> bool" where
  "groupsOf G S =
    ((\<forall>t grp. map_of G t = Some grp \<longrightarrow>
        grp \<noteq> [] \<and>
        (\<forall>n e. map_of grp n = Some e \<longrightarrow> testName e = t \<and> entryName e = n \<and> e \<in> S)) \<and>
     (\<forall>e\<in>S. \<exists>grp. map_of G (testName e) = Some grp \<and> map_of grp (entryName e) = Some e))"

section \<open>Finalization\<close>

lemma filteredEntries_Some:
  "filteredEntries ents name = Some entry \<longleftrightarrow> ents name = Some entry \<and> used entry"
  by (auto simp: filteredEntries_def split: option.splits)

text \<open>
  Claim C2. For every record of the manager, \<^verbatim>\<open>getModifiedSnapshots\<close> returns under the
  same path a record with the same flags and raw text. When the runner is not partial,
  its entries are exactly the stored entries whose \<open>used\<close> is true; when the runner is
  partial, its entries are all the stored entries.
\<close>

theorem getModifiedSnapshots_pruning:
  assumes "snapshots m path = Some s"
  shows "\<exists>s'. getModifiedSnapshots m path = Some s' \<and>
           existsOnDisk s' = existsOnDisk s \<and> snapshot_used s' = snapshot_used s \<and>
           raw s' = raw s \<and>
           (if partial m then entries s' = entries s
            else (\<forall>name entry. entries s' name = Some entry \<longleftrightarrow>
                    entries s name = Some entry \<and> used entry))"
  using assms by (simp add: getModifiedSnapshots_def filteredEntries_Some)

theorem getModifiedSnapshots_pruning_witness:
  "snapshots (demoManager False False False [demoPath \<mapsto> demoSnapshot]) demoPath = Some demoSnapshot \<and>
   (\<exists>s'. getModifiedSnapshots (demoManager False False False [demoPath \<mapsto> demoSnapshot]) demoPath = Some s' \<and>
      entries s' ''t#a'' = Some demoUsed \<and> entries s' ''t#b'' = None) \<and>
   snapshots (demoManager False False True [demoPath \<mapsto> demoSnapshot]) demoPath = Some demoSnapshot \<and>
   (\<exists>s'. getModifiedSnapshots (demoManager False False True [demoPath \<mapsto> demoSnapshot]) demoPath = Some s' \<and>
      entries s' ''t#a'' = Some demoUsed \<and> entries s' ''t#b'' = Some demoUnused)"
proof -
  let ?m = "demoManager False False False [demoPath \<mapsto> demoSnapshot]"
  let ?mp = "demoManager False False True [demoPath \<mapsto> demoSnapshot]"
  have h: "snapshots ?m demoPath = Some demoSnapshot"
    by (simp add: demoManager_def)
  have hp: "snapshots ?mp demoPath = Some demoSnapshot"
    by (simp add: demoManager_def)
  have np: "\<not> partial ?m" and p: "partial ?mp"
    by (simp_all add: demoManager_def)
  from getModifiedSnapshots_pruning [OF h] np obtain s' where
    s': "getModifiedSnapshots ?m demoPath = Some s'"
      "\<forall>name entry. entries s' name = Some entry \<longleftrightarrow>
         entries demoSnapshot name = Some entry \<and> used entry"
    by auto
  have a: "entries s' ''t#a'' = Some demoUsed"
    using s'(2) by (simp add: demoSnapshot_def demoUsed_def)
  have "\<forall>entry. entries s' ''t#b'' \<noteq> Some entry"
    using s'(2) by (simp add: demoSnapshot_def demoUnused_def)
  then have b: "entries s' ''t#b'' = None"
    by (cases "entries s' ''t#b''") auto
  from getModifiedSnapshots_pruning [OF hp] p obtain s'' where
    s'': "getModifiedSnapshots ?mp demoPath = Some s''" "entries s'' = entries demoSnapshot"
    by auto
  have c: "entries s'' ''t#a'' = Some demoUsed" "entries s'' ''t#b'' = Some demoUnused"
    using s''(2) by (simp_all add: demoSnapshot_def)
  from h hp s'(1) a b s''(1) c show ?thesis by blast
qed

text \<open>
  Claim C5 as stated fails: a record none of whose entries is used stays in the result
  of a runner that is not partial, with an empty entries map.
\<close>

theorem getModifiedSnapshots_keeps_stale_record:
  "partial (demoManager False False False [demoPath \<mapsto> staleSnapshot]) = False \<and>
   snapshots (demoManager False False False [demoPath \<mapsto> staleSnapshot]) demoPath = Some staleSnapshot \<and>
   entries staleSnapshot = [''t#b'' \<mapsto> demoUnused] \<and> used demoUnused = False \<and>
   getModifiedSnapshots (demoManager False False False [demoPath \<mapsto> staleSnapshot]) demoPath
     = Some (staleSnapshot\<lparr>entries := Map.empty\<rparr>)"
  by (auto simp: demoManager_def staleSnapshot_def demoUnused_def getModifiedSnapshots_def
      filteredEntries_def)

text \<open>
  Claim C5, amended. \<^verbatim>\<open>getModifiedSnapshots\<close> drops no path: its result has
  exactly the paths of the manager's map. A record that has no used entry, when the
  runner is not partial, is returned under its path with an empty entries map.
\<close>

theorem getModifiedSnapshots_keeps_paths:
  "dom (getModifiedSnapshots m) = dom (snapshots m) \<and>
   (\<forall>path s. snapshots m path = Some s \<and> \<not> partial m \<and>
       (\<forall>name entry. entries s name = Some entry \<longrightarrow> \<not> used entry) \<longrightarrow>
     getModifiedSnapshots m path = Some (s\<lparr>entries := Map.empty\<rparr>))"
proof -
  have "dom (getModifiedSnapshots m) = dom (snapshots m)"
    by (auto simp: getModifiedSnapshots_def split: option.splits)
  moreover have "getModifiedSnapshots m path = Some (s\<lparr>entries := Map.empty\<rparr>)"
    if "snapshots m path = Some s" "\<not> partial m"
       "\<forall>name entry. entries s name = Some entry \<longrightarrow> \<not> used entry" for path s
  proof -
    have "filteredEntries (entries s) = Map.empty"
      using that(3) by (auto simp: filteredEntries_def split: option.splits)
    with that(1,2) show ?thesis by (simp add: getModifiedSnapshots_def)
  qed
  ultimately show ?thesis by blast
qed

theorem getModifiedSnapshots_keeps_paths_witness:
  "dom (getModifiedSnapshots (demoManager False False False [demoPath \<mapsto> staleSnapshot])) = {demoPath} \<and>
   getModifiedSnapshots (demoManager False False False [demoPath \<mapsto> staleSnapshot]) demoPath
     = Some (staleSnapshot\<lparr>entries := Map.empty\<rparr>)"
proof -
  let ?m = "demoManager False False False [demoPath \<mapsto> staleSnapshot]"
  have 1: "snapshots ?m demoPath = Some staleSnapshot" and 2: "\<not> partial ?m"
    by (simp_all add: demoManager_def)
  have 3: "\<forall>name entry. entries staleSnapshot name = Some entry \<longrightarrow> \<not> used entry"
    by (simp add: staleSnapshot_def demoUnused_def)
  have 4: "dom (snapshots ?m) = {demoPath}"
    by (simp add: demoManager_def)
  from getModifiedSnapshots_keeps_paths [of ?m] 1 2 3 4 show ?thesis by blast
qed

section \<open>Reading and writing entries\<close>

text \<open>
  Claim C6. In update mode, \<^verbatim>\<open>get\<close> never returns a value, whatever the record
  holds. When the record of the path is in the manager's map, \<^verbatim>\<open>get\<close> returns absent
  and the manager it leaves differs from the one it found only in that record's \<open>used\<close>
  flag, which is true: the entries, and with them the \<open>used\<close> flag of the entry asked
  for, are as they were. When the record is not in the map and \<^verbatim>\<open>get\<close> loads it, the
  same holds of the record and the manager that \<^verbatim>\<open>loadSnapshot\<close> returns. When there
  is no file, \<^verbatim>\<open>get\<close> returns absent, and when loading throws, \<^verbatim>\<open>get\<close> throws the
  same error; the manager is then as \<^verbatim>\<open>loadSnapshot\<close> left it.
\<close>

theorem get_update_mode:
  assumes "updateSnapshots (options m)"
  shows "(\<forall>v. fst (get ext m tn en optionalFilename) \<noteq> Inr (Some v)) \<and>
         (\<forall>s. snapshots m (normalizeSnapshotPath ext m optionalFilename) = Some s \<longrightarrow>
            get ext m tn en optionalFilename =
              (Inr None,
               m\<lparr>snapshots := (snapshots m)
                    (normalizeSnapshotPath ext m optionalFilename \<mapsto>
                       s\<lparr>snapshot_used := True\<rparr>)\<rparr>)) \<and>
         (\<forall>s m1. snapshots m (normalizeSnapshotPath ext m optionalFilename) = None \<and>
              loadSnapshot ext m (normalizeSnapshotPath ext m optionalFilename) =
                (Inr (Some s), m1) \<longrightarrow>
            get ext m tn en optionalFilename =
              (Inr None,
               m1\<lparr>snapshots := (snapshots m1)
                    (normalizeSnapshotPath ext m optionalFilename \<mapsto>
                       s\<lparr>snapshot_used := True\<rparr>)\<rparr>)) \<and>
         (\<forall>m1. snapshots m (normalizeSnapshotPath ext m optionalFilename) = None \<and>
              loadSnapshot ext m (normalizeSnapshotPath ext m optionalFilename) =
                (Inr None, m1) \<longrightarrow>
            get ext m tn en optionalFilename = (Inr None, m1)) \<and>
         (\<forall>e m1. snapshots m (normalizeSnapshotPath ext m optionalFilename) = None \<and>
              loadSnapshot ext m (normalizeSnapshotPath ext m optionalFilename) =
                (Inl e, m1) \<longrightarrow>
            get ext m tn en optionalFilename = (Inl e, m1))"
proof -
  let ?p = "normalizeSnapshotPath ext m optionalFilename"
  let ?r = "case snapshots m ?p of Some s \<Rightarrow> (Inr (Some s), m) | None \<Rightarrow> loadSnapshot ext m ?p"
  have never: "fst (get ext m tn en optionalFilename) \<noteq> Inr (Some v)" for v
  proof (cases ?r)
    case (Pair res m1)
    then show ?thesis
      using assms
      by (cases res; cases "projr res")
         (simp_all add: get_def Let_def split: option.splits)
  qed
  have cached: "get ext m tn en optionalFilename =
      (Inr None, m\<lparr>snapshots := (snapshots m)(?p \<mapsto> s\<lparr>snapshot_used := True\<rparr>)\<rparr>)"
    if "snapshots m ?p = Some s" for s
    using assms that by (simp add: get_def Let_def)
  have loaded: "get ext m tn en optionalFilename =
      (Inr None, m1\<lparr>snapshots := (snapshots m1)(?p \<mapsto> s\<lparr>snapshot_used := True\<rparr>)\<rparr>)"
    if "snapshots m ?p = None" "loadSnapshot ext m ?p = (Inr (Some s), m1)" for s m1
    using assms that by (simp add: get_def Let_def)
  have missing: "get ext m tn en optionalFilename = (Inr None, m1)"
    if "snapshots m ?p = None" "loadSnapshot ext m ?p = (Inr None, m1)" for m1
    using that by (simp add: get_def Let_def)
  have failed: "get ext m tn en optionalFilename = (Inl e, m1)"
    if "snapshots m ?p = None" "loadSnapshot ext m ?p = (Inl e, m1)" for e m1
    using that by (simp add: get_def Let_def)
  from never cached loaded missing failed show ?thesis
    by (intro conjI allI impI) (simp_all del: fst_conv)
qed

theorem get_update_mode_witness:
  "updateSnapshots (options (demoManager True False False [demoPath \<mapsto> demoSnapshot])) \<and>
   snapshots (demoManager True False False [demoPath \<mapsto> demoSnapshot])
     (normalizeSnapshotPath (demoExternals []) (demoManager True False False [demoPath \<mapsto> demoSnapshot]) None)
       = Some demoSnapshot \<and>
   entries demoSnapshot (buildEntriesKey ''t'' ''b'') = Some demoUnused \<and>
   used demoUnused = False \<and>
   get (demoExternals []) (demoManager True False False [demoPath \<mapsto> demoSnapshot]) ''t'' ''b'' None =
     (Inr None,
      demoManager True False False [demoPath \<mapsto> demoSnapshot\<lparr>snapshot_used := True\<rparr>]) \<and>
   updateSnapshots (options (demoManager True False False Map.empty)) \<and>
   normalizeSnapshotPath (demoExternals loadedText) (demoManager True False False Map.empty)
     (Some ''x'') = demoPath \<and>
   snapshots (demoManager True False False Map.empty) demoPath = None \<and>
   get (demoExternals loadedText) (demoManager True False False Map.empty) ''t'' ''0'' (Some ''x'') =
     (Inr None,
      demoManager True False False
        [demoPath \<mapsto> \<lparr>existsOnDisk = True, snapshot_used = True, raw = loadedText,
           entries = [''t#0'' \<mapsto> \<lparr>testName = ''t'', entryName = ''0'', language = None,
                                  value = ''1'', used = False\<rparr>]\<rparr>])"
proof -
  let ?m = "demoManager True False False [demoPath \<mapsto> demoSnapshot]"
  let ?n = "demoManager True False False Map.empty :: (string, int, unit) SnapshotManager"
  let ?s = "\<lparr>existsOnDisk = True, snapshot_used = False, raw = loadedText,
           entries = [''t#0'' \<mapsto> \<lparr>testName = ''t'', entryName = ''0'', language = None,
                                  value = ''1'', used = False\<rparr>]\<rparr>"
  have 1: "updateSnapshots (options ?m)"
    by (simp add: demoManager_def)
  have p: "normalizeSnapshotPath (demoExternals []) ?m None = demoPath"
    by (simp add: normalizeSnapshotPath_def demoManager_def)
  have 2: "snapshots ?m (normalizeSnapshotPath (demoExternals []) ?m None) = Some demoSnapshot"
    unfolding p by (simp add: demoManager_def)
  have 3: "entries demoSnapshot (buildEntriesKey ''t'' ''b'') = Some demoUnused"
    by (simp add: demoSnapshot_def buildEntriesKey_def)
  have 4: "used demoUnused = False"
    by (simp add: demoUnused_def)
  have 5: "?m\<lparr>snapshots := (snapshots ?m)(demoPath \<mapsto> demoSnapshot\<lparr>snapshot_used := True\<rparr>)\<rparr>
        = demoManager True False False [demoPath \<mapsto> demoSnapshot\<lparr>snapshot_used := True\<rparr>]"
    by (simp add: demoManager_def)
  have a: "get (demoExternals []) ?m ''t'' ''b'' None =
     (Inr None, demoManager True False False [demoPath \<mapsto> demoSnapshot\<lparr>snapshot_used := True\<rparr>])"
    using get_update_mode [OF 1, of "demoExternals []" "''t''" "''b''" None] 2 p 5
    by simp
  have 6: "updateSnapshots (options ?n)"
    by (simp add: demoManager_def)
  have q: "normalizeSnapshotPath (demoExternals loadedText) ?n (Some ''x'') = demoPath"
    by (simp add: normalizeSnapshotPath_def demoExternals_def demoPath_def endsWith_def
        SNAPSHOT_EXT_def)
  have 7: "snapshots ?n demoPath = None"
    by (simp add: demoManager_def)
  have 8: "loadSnapshot (demoExternals loadedText) ?n demoPath =
      (Inr (Some ?s), demoManager True False False [demoPath \<mapsto> ?s])"
    by (simp add: loadSnapshot_def demoExternals_def demoManager_def demoPath_def loadedText_def
      parseSnapshotText_def consNode_def trim_def isWhiteSpace_def cleanHeading_def
      buildEntriesKey_def Let_def)
  have 9: "(demoManager True False False [demoPath \<mapsto> ?s])
        \<lparr>snapshots := (snapshots (demoManager True False False [demoPath \<mapsto> ?s]))
           (demoPath \<mapsto> ?s\<lparr>snapshot_used := True\<rparr>)\<rparr> =
      (demoManager True False False
        [demoPath \<mapsto> \<lparr>existsOnDisk = True, snapshot_used = True, raw = loadedText,
           entries = [''t#0'' \<mapsto> \<lparr>testName = ''t'', entryName = ''0'', language = None,
                                  value = ''1'', used = False\<rparr>]\<rparr>]
         :: (string, int, unit) SnapshotManager)"
    by (simp add: demoManager_def)
  have b: "get (demoExternals loadedText) ?n ''t'' ''0'' (Some ''x'') =
     (Inr None,
      demoManager True False False
        [demoPath \<mapsto> \<lparr>existsOnDisk = True, snapshot_used = True, raw = loadedText,
           entries = [''t#0'' \<mapsto> \<lparr>testName = ''t'', entryName = ''0'', language = None,
                                  value = ''1'', used = False\<rparr>]\<rparr>])"
    using get_update_mode [OF 6, of "demoExternals loadedText" "''t''" "''0''" "Some ''x''"]
      7 8 9
    unfolding q by simp
  from 1 2 3 4 a 6 q 7 b show ?thesis
    by blast
qed

text \<open>
  Claim C4 does not hold of the code: the key of an entry is the test name, a hash and
  the entry name, so two different pairs of names can have one key. Here the second
  \<^verbatim>\<open>set\<close> overwrites the entry of the first, and a \<^verbatim>\<open>get\<close> of the first pair
  returns the value stored for the second.
\<close>

theorem set_key_collision:
  "(''a#b'', ''c'') \<noteq> (''a'', ''b#c'') \<and>
   buildEntriesKey ''a#b'' ''c'' = buildEntriesKey ''a'' ''b#c'' \<and>
   fst (get (demoExternals [])
          (set' (demoExternals [])
             (set' (demoExternals []) (demoManager False False False Map.empty)
                ''a#b'' ''c'' ''first'' None None)
             ''a'' ''b#c'' ''second'' None None)
          ''a#b'' ''c'' None) = Inr (Some ''second'')"
  by (simp add: get_def set'_def normalizeSnapshotPath_def demoManager_def buildEntriesKey_def)

text \<open>
  Claim C9 does not hold of the code: \<^verbatim>\<open>set\<close> marks a record as used only when it
  creates it. Here the record is loaded from its file, so its \<open>used\<close> flag is false, and
  stays false after \<^verbatim>\<open>set\<close> has overwritten its entry.
\<close>

theorem set_leaves_loaded_record_unused:
  "loadSnapshot (demoExternals loadedText) (demoManager False False False Map.empty) demoPath =
     (Inr (Some \<lparr>existsOnDisk = True, snapshot_used = False, raw = loadedText,
             entries = [''t#0'' \<mapsto> \<lparr>testName = ''t'', entryName = ''0'', language = None,
                                    value = ''1'', used = False\<rparr>]\<rparr>),
      demoManager False False False
        [demoPath \<mapsto> \<lparr>existsOnDisk = True, snapshot_used = False, raw = loadedText,
           entries = [''t#0'' \<mapsto> \<lparr>testName = ''t'', entryName = ''0'', language = None,
                                  value = ''1'', used = False\<rparr>]\<rparr>]) \<and>
   map_option snapshot_used
     (snapshots
        (set' (demoExternals loadedText)
           (snd (loadSnapshot (demoExternals loadedText)
                   (demoManager False False False Map.empty) demoPath))
           ''t'' ''0'' ''2'' None None)
        demoPath) = Some False"
  by (simp add: loadSnapshot_def demoExternals_def demoManager_def demoPath_def loadedText_def
      parseSnapshotText_def consNode_def trim_def isWhiteSpace_def cleanHeading_def
      buildEntriesKey_def set'_def normalizeSnapshotPath_def Let_def)

section \<open>Errors while loading\<close>

text \<open>
  Claim C3 does not hold of the code: the file below parses, and its last level-3
  heading is followed by no code block. \<^verbatim>\<open>loadSnapshot\<close> throws, and the manager's
  map holds a record for the path, with the one entry read before the error; a
  \<^verbatim>\<open>get\<close> after that finds this record and answers from it.
\<close>

theorem loadSnapshot_caches_partial_record:
  "parseSnapshotText brokenText =
     Inr [Heading 2 ''`t`'' 1, Heading 3 ''`a`'' 2, CodeBlock None ''1'' 3, Heading 3 ''`b`'' 6] \<and>
   loadSnapshot (demoExternals brokenText) (demoManager False False False Map.empty) demoPath =
     (Inl (EXPECTED_CODE_BLOCK_AFTER_HEADING 6),
      demoManager False False False
        [demoPath \<mapsto> \<lparr>existsOnDisk = True, snapshot_used = False, raw = brokenText,
           entries = [''t#a'' \<mapsto> \<lparr>testName = ''t'', entryName = ''a'', language = None,
                                  value = ''1'', used = False\<rparr>]\<rparr>]) \<and>
   fst (get (demoExternals brokenText)
          (snd (loadSnapshot (demoExternals brokenText)
                  (demoManager False False False Map.empty) demoPath))
          ''t'' ''a'' None) = Inr (Some ''1'')"
  by (simp add: loadSnapshot_def demoExternals_def demoManager_def demoPath_def brokenText_def
      parseSnapshotText_def consNode_def trim_def isWhiteSpace_def cleanHeading_def
      buildEntriesKey_def Let_def get_def normalizeSnapshotPath_def)

section \<open>Inline snapshots\<close>

text \<open>
  Claim C7. When the formatted texts of \<open>received\<close> and \<open>expected\<close> differ, update mode
  is on or \<open>expected\<close> was not given, the call frame has a line and a column, and freeze
  mode is off, \<^verbatim>\<open>testInlineSnapshot\<close> returns \<open>UPDATE\<close> and appends exactly one
  update to the log, leaving the rest of the manager as it was: the update has that
  line and column, and its snapshot is \<open>received\<close> itself when that is a string, a
  number, a boolean or null, and the formatted text of \<open>received\<close> otherwise.
\<close>

theorem testInlineSnapshot_update:
  assumes "stringOrPrettyFormat pf received \<noteq> stringOrPrettyFormat pf expected"
    and "updateSnapshots (options m) \<or> expected = JUndefined"
    and "lineNumber callFrame = Some ln" and "columnNumber callFrame = Some cn"
    and "\<not> freezeSnapshots (options m)"
  shows "testInlineSnapshot pf m callFrame received expected =
           (Inr UPDATE,
            m\<lparr>inlineSnapshotsUpdates := inlineSnapshotsUpdates m @
               [\<lparr>line = ln, column = cn,
                 snapshot = (case received of
                               JString s \<Rightarrow> received
                             | JNumber n \<Rightarrow> received
                             | JBoolean b \<Rightarrow> received
                             | JNull \<Rightarrow> received
                             | _ \<Rightarrow> JString (stringOrPrettyFormat pf received))\<rparr>]\<rparr>)"
proof -
  have "(if isLiteral received then received else JString (stringOrPrettyFormat pf received)) =
        (case received of
           JString s \<Rightarrow> received
         | JNumber n \<Rightarrow> received
         | JBoolean b \<Rightarrow> received
         | JNull \<Rightarrow> received
         | _ \<Rightarrow> JString (stringOrPrettyFormat pf received))"
    by (cases received) simp_all
  with assms show ?thesis
    by (simp add: testInlineSnapshot_def Let_def)
qed

theorem testInlineSnapshot_update_witness:
  "stringOrPrettyFormat demoPrettyFormat (JString ''xyz'')
     \<noteq> stringOrPrettyFormat demoPrettyFormat (JString ''abc'') \<and>
   updateSnapshots (options (demoManager True False False Map.empty)) \<and>
   lineNumber demoFrame = Some 12 \<and> columnNumber demoFrame = Some 4 \<and>
   \<not> freezeSnapshots (options (demoManager True False False Map.empty)) \<and>
   testInlineSnapshot demoPrettyFormat (demoManager True False False Map.empty) demoFrame
       (JString ''xyz'') (JString ''abc'') =
     (Inr UPDATE,
      (demoManager True False False Map.empty)
        \<lparr>inlineSnapshotsUpdates := [\<lparr>line = 12, column = 4, snapshot = JString ''xyz''\<rparr>]\<rparr>) \<and>
   testInlineSnapshot demoPrettyFormat (demoManager False False False Map.empty) demoFrame
       (JOther ()) JUndefined =
     (Inr UPDATE,
      (demoManager False False False Map.empty)
        \<lparr>inlineSnapshotsUpdates := [\<lparr>line = 12, column = 4, snapshot = JString ''Object {}''\<rparr>]\<rparr>)"
proof -
  let ?m = "demoManager True False False Map.empty"
  let ?n = "demoManager False False False Map.empty"
  have 1: "stringOrPrettyFormat demoPrettyFormat (JString ''xyz'')
     \<noteq> stringOrPrettyFormat demoPrettyFormat (JString ''abc'')"
    by (simp add: stringOrPrettyFormat_def)
  have 2: "updateSnapshots (options ?m) \<or> JString ''abc'' = (JUndefined :: (int, unit) jsvalue)"
    and 3: "lineNumber demoFrame = Some 12" and 4: "columnNumber demoFrame = Some 4"
    and 5: "\<not> freezeSnapshots (options ?m)"
    by (simp_all add: demoManager_def demoFrame_def)
  have 6: "stringOrPrettyFormat demoPrettyFormat (JOther ())
     \<noteq> stringOrPrettyFormat demoPrettyFormat JUndefined"
    by (simp add: stringOrPrettyFormat_def demoPrettyFormat_def)
  have 7: "updateSnapshots (options ?n) \<or> JUndefined = (JUndefined :: (int, unit) jsvalue)"
    and 8: "\<not> freezeSnapshots (options ?n)"
    by (simp_all add: demoManager_def)
  have a: "testInlineSnapshot demoPrettyFormat ?m demoFrame (JString ''xyz'') (JString ''abc'') =
     (Inr UPDATE, ?m\<lparr>inlineSnapshotsUpdates := [\<lparr>line = 12, column = 4, snapshot = JString ''xyz''\<rparr>]\<rparr>)"
    using testInlineSnapshot_update [OF 1 2 3 4 5] by (simp add: demoManager_def)
  have b: "testInlineSnapshot demoPrettyFormat ?n demoFrame (JOther ()) JUndefined =
     (Inr UPDATE, ?n\<lparr>inlineSnapshotsUpdates := [\<lparr>line = 12, column = 4, snapshot = JString ''Object {}''\<rparr>]\<rparr>)"
    using testInlineSnapshot_update [OF 6 7 3 4 8]
    by (simp add: demoManager_def stringOrPrettyFormat_def demoPrettyFormat_def)
  from 1 2 3 4 5 a b show ?thesis by simp
qed

text \<open>
  Claim C8. Under the same conditions but with freeze mode on,
  \<^verbatim>\<open>testInlineSnapshot\<close> returns \<open>UPDATE\<close> and leaves the manager as it was: the log
  of inline updates and the map of snapshots are unchanged.
\<close>

theorem testInlineSnapshot_freeze:
  assumes "stringOrPrettyFormat pf received \<noteq> stringOrPrettyFormat pf expected"
    and "updateSnapshots (options m) \<or> expected = JUndefined"
    and "lineNumber callFrame = Some ln" and "columnNumber callFrame = Some cn"
    and "freezeSnapshots (options m)"
  shows "testInlineSnapshot pf m callFrame received expected = (Inr UPDATE, m)"
  using assms by (simp add: testInlineSnapshot_def Let_def)

theorem testInlineSnapshot_freeze_witness:
  "stringOrPrettyFormat demoPrettyFormat (JString ''xyz'')
     \<noteq> stringOrPrettyFormat demoPrettyFormat (JString ''abc'') \<and>
   updateSnapshots (options (demoManager True True False [demoPath \<mapsto> demoSnapshot])) \<and>
   lineNumber demoFrame = Some 12 \<and> columnNumber demoFrame = Some 4 \<and>
   freezeSnapshots (options (demoManager True True False [demoPath \<mapsto> demoSnapshot])) \<and>
   testInlineSnapshot demoPrettyFormat (demoManager True True False [demoPath \<mapsto> demoSnapshot])
       demoFrame (JString ''xyz'') (JString ''abc'') =
     (Inr UPDATE, demoManager True True False [demoPath \<mapsto> demoSnapshot])"
proof -
  let ?m = "demoManager True True False [demoPath \<mapsto> demoSnapshot]"
  have 1: "stringOrPrettyFormat demoPrettyFormat (JString ''xyz'')
     \<noteq> stringOrPrettyFormat demoPrettyFormat (JString ''abc'')"
    by (simp add: stringOrPrettyFormat_def)
  have 2: "updateSnapshots (options ?m) \<or> JString ''abc'' = (JUndefined :: (int, unit) jsvalue)"
    and 3: "lineNumber demoFrame = Some 12" and 4: "columnNumber demoFrame = Some 4"
    and 5: "freezeSnapshots (options ?m)"
    by (simp_all add: demoManager_def demoFrame_def)
  from testInlineSnapshot_freeze [OF 1 2 3 4 5] 1 2 3 4 5 show ?thesis by simp
qed

section \<open>Round trip: build, parse, load\<close>

subsection \<open>Lines and text\<close>

lemma splitLines_nonempty: "splitLines s \<noteq> []"
  by (induction s) (auto split: list.splits)

lemma splitLines_no_newline: "CHR 0x0A \<notin> set s \<Longrightarrow> splitLines s = [s]"
  by (induction s) auto

lemma splitLines_append_newline:
  "splitLines (a @ CHR 0x0A # b) = splitLines a @ splitLines b"
proof (induction a)
  case Nil
  show ?case by simp
next
  case (Cons c a)
  obtain l ls where "splitLines a = l # ls"
    using splitLines_nonempty [of a] by (cases "splitLines a") auto
  with Cons show ?case by simp
qed

lemma splitLines_joinLines:
  "ls \<noteq> [] \<Longrightarrow> splitLines (joinLines ls) = concat (map splitLines ls)"
proof (induction ls rule: joinLines.induct)
  case 1
  then show ?case by simp
next
  case (2 l)
  show ?case by simp
next
  case (3 l k ks)
  have "splitLines (joinLines (l # k # ks)) = splitLines l @ splitLines (joinLines (k # ks))"
    by (simp add: splitLines_append_newline)
  with 3 show ?case by simp
qed

lemma joinLines_splitLines: "joinLines (splitLines s) = s"
proof (induction s)
  case Nil
  show ?case by simp
next
  case (Cons c s)
  obtain l ls where ls: "splitLines s = l # ls"
    using splitLines_nonempty [of s] by (cases "splitLines s") auto
  show ?case
  proof (cases "c = CHR 0x0A")
    case True
    with Cons ls show ?thesis by simp
  next
    case False
    with Cons ls show ?thesis by (cases ls) auto
  qed
qed

lemma splitLines_hd_prefix: "\<exists>r. s = hd (splitLines s) @ r"
proof (induction s)
  case Nil
  show ?case by simp
next
  case (Cons c s)
  obtain l ls where ls: "splitLines s = l # ls"
    using splitLines_nonempty [of s] by (cases "splitLines s") auto
  with Cons show ?case by (cases "c = CHR 0x0A") auto
qed

lemma fence_line_hasFence: "''```'' \<in> set (splitLines s) \<Longrightarrow> hasFence s"
proof (induction s)
  case Nil
  then show ?case by simp
next
  case (Cons c s)
  obtain l ls where ls: "splitLines s = l # ls"
    using splitLines_nonempty [of s] by (cases "splitLines s") auto
  show ?case
  proof (cases "c = CHR 0x0A")
    case True
    with Cons show ?thesis by simp
  next
    case False
    with Cons.prems ls have "''```'' = c # l \<or> ''```'' \<in> set ls"
      by auto
    then show ?thesis
    proof
      assume "''```'' = c # l"
      moreover obtain r where "s = l @ r"
        using splitLines_hd_prefix [of s] ls by auto
      ultimately show ?thesis by auto
    next
      assume "''```'' \<in> set ls"
      with ls Cons.IH show ?thesis by simp
    qed
  qed
qed

lemma trim_heading:
  "trim (CHR '' '' # CHR 0x60 # s @ [CHR 0x60]) = CHR 0x60 # s @ [CHR 0x60]"
  by (simp add: trim_def isWhiteSpace_def)

lemma cleanHeading_wrapped:
  "trim name = name \<Longrightarrow> cleanHeading (CHR 0x60 # name @ [CHR 0x60]) = name"
  by (simp add: cleanHeading_def)

subsection \<open>The lines of a built snapshot\<close>

lemma pushNewline_blank: "ls \<noteq> [] \<Longrightarrow> last ls = [] \<Longrightarrow> pushNewline ls = ls"
  by (simp add: pushNewline_def)

lemma pushNewline_snoc: "l \<noteq> [] \<Longrightarrow> pushNewline (ls @ [l]) = ls @ [l, []]"
  by (simp add: pushNewline_def)

lemma pushEntry_lines:
  assumes "ls \<noteq> []" and "last ls = []"
  shows "pushEntry grp n ls name = ls @ entryLinesOf grp n name"
  using assms
  by (cases "map_of grp name")
     (simp_all add: pushEntry_def entryLinesOf_def entryLines_def Let_def pushNewline_def)

lemma entryLinesOf_last: "entryLinesOf grp n name = [] \<or> last (entryLinesOf grp n name) = []"
  by (simp add: entryLinesOf_def entryLines_def split: option.splits)

lemma foldl_pushEntry:
  "ls \<noteq> [] \<Longrightarrow> last ls = [] \<Longrightarrow>
   foldl (pushEntry grp n) ls names = ls @ concat (map (entryLinesOf grp n) names)"
proof (induction names arbitrary: ls)
  case Nil
  show ?case by simp
next
  case (Cons name names)
  have step: "pushEntry grp n ls name = ls @ entryLinesOf grp n name"
    using Cons.prems by (rule pushEntry_lines)
  have "ls @ entryLinesOf grp n name \<noteq> []"
    using Cons.prems by simp
  moreover have "last (ls @ entryLinesOf grp n name) = []"
    using Cons.prems entryLinesOf_last [of grp n name]
    by (cases "entryLinesOf grp n name = []") auto
  ultimately have
    "foldl (pushEntry grp n) (ls @ entryLinesOf grp n name) names =
       (ls @ entryLinesOf grp n name) @ concat (map (entryLinesOf grp n) names)"
    by (rule Cons.IH)
  with step show ?case by simp
qed

lemma pushTest_lines: "pushTest cmp G ls t = ls @ testLinesOf cmp G t"
proof (cases "map_of G t")
  case None
  then show ?thesis by (simp add: pushTest_def testLinesOf_def)
next
  case (Some grp)
  have a: "pushNewline (ls @ [''## `'' @ t @ ''`'']) = ls @ [''## `'' @ t @ ''`'', []]"
    by (rule pushNewline_snoc) simp
  have "foldl (pushEntry grp n) (ls @ [''## `'' @ t @ ''`'', []]) names =
          (ls @ [''## `'' @ t @ ''`'', []]) @ concat (map (entryLinesOf grp n) names)" for n names
    by (rule foldl_pushEntry) simp_all
  with Some a show ?thesis
    by (simp add: pushTest_def testLinesOf_def Let_def)
qed

lemma foldl_pushTest:
  "foldl (pushTest cmp G) ls ts = ls @ concat (map (testLinesOf cmp G) ts)"
  by (induction ts arbitrary: ls) (simp_all add: pushTest_lines)

lemma buildSnapshot_lines:
  "buildSnapshot cmp basename relative es =
     joinLines (headerLines basename relative @
       concat (map (testLinesOf cmp (foldl addEntry [] es))
                 (sort (map fst (foldl addEntry [] es)))))"
proof -
  have a: "pushNewline [''# `'' @ basename @ ''`''] = [''# `'' @ basename @ ''`'', []]"
    using pushNewline_snoc [of "''# `'' @ basename @ ''`''" "[]"] by simp
  have b: "pushNewline ([t, []] @ [d]) = [t, [], d, []]" if "d \<noteq> []" for t d :: string
    using pushNewline_snoc [of d "[t, []]"] that by simp
  show ?thesis
    unfolding buildSnapshot_def Let_def a foldl_pushTest headerLines_def
    by (subst b) simp_all
qed

subsection \<open>Parsing and walking the blocks\<close>

lemma parse_blank: "parseLines None n ([] # rest) = parseLines None (Suc n) rest"
  by simp

lemma parse_heading2:
  "parseLines None n ((''## `'' @ t @ ''`'') # rest) =
     consNode (Heading 2 (CHR 0x60 # t @ [CHR 0x60]) n) (parseLines None (Suc n) rest)"
  by (simp add: trim_heading numeral_2_eq_2)

lemma parse_heading3:
  "parseLines None n ((''### `'' @ t @ ''`'') # rest) =
     consNode (Heading 3 (CHR 0x60 # t @ [CHR 0x60]) n) (parseLines None (Suc n) rest)"
  by (simp add: trim_heading numeral_3_eq_3)

lemma parse_block_body:
  "''```'' \<notin> set body \<Longrightarrow>
   parseLines (Some (st, lang, acc)) n (body @ ''```'' # rest) =
     consNode (CodeBlock lang (joinLines (rev acc @ body)) st)
       (parseLines None (Suc (n + length body)) rest)"
  by (induction body arbitrary: acc n) auto

lemma parse_block:
  assumes "\<not> hasFence v"
  shows "parseLines None n (((''```'' @ l) # splitLines v) @ ''```'' # rest) =
     consNode (CodeBlock (if l = [] then None else Some l) v n)
       (parseLines None (Suc (Suc (n + length (splitLines v)))) rest)"
proof -
  have "''```'' \<notin> set (splitLines v)"
    using assms fence_line_hasFence by blast
  then show ?thesis
    by (simp add: parse_block_body joinLines_splitLines)
qed

lemma loadsAs_Nil: "loadsAs [] (\<lambda>ents. ents)"
  by (simp add: loadsAs_def)

lemma walkTest_stops:
  "ns = [] \<or> (\<exists>ht k. hd ns = Heading 2 ht k) \<Longrightarrow> walkTest t ents ns = (None, ents, ns)"
  by (cases ns) auto

lemma loadsInTest_of_loadsAs:
  assumes "loadsAs rest F"
  shows "loadsInTest t rest F"
  unfolding loadsInTest_def
proof
  fix n
  from assms obtain ns where ns: "parseLines None n rest = Inr ns"
    "ns = [] \<or> (\<exists>ht k. hd ns = Heading 2 ht k)" "\<forall>ents. walkNodes ents ns = (None, F ents)"
    unfolding loadsAs_def by blast
  from ns(2) have "walkTest t ents ns = (None, ents, ns)" for ents
    by (rule walkTest_stops)
  with ns(1,3) show "\<exists>ns. parseLines None n rest = Inr ns \<and>
       (\<forall>ents. \<exists>ents' ns'. walkTest t ents ns = (None, ents', ns') \<and>
          walkNodes ents' ns' = (None, F ents))"
    by auto
qed

lemma flat_block:
  assumes "splitLines h = [h]" and "splitLines f = [f]" and "splitLines c = [c]"
  shows "concat (map splitLines ((if b then [] else [h, []]) @ [f, v, c, []])) =
     (if b then [] else [h, []]) @ (f # splitLines v) @ [c, []]"
  using assms by simp

lemma flat_entryLines:
  assumes "plainEntry e"
  shows "concat (map splitLines (entryLines n (entryName e) e)) =
     (if entryName e = ''0'' \<and> n = 1 then [] else [''### `'' @ entryName e @ ''`'', []]) @
     ((''```'' @ (case language e of None \<Rightarrow> [] | Some l \<Rightarrow> l)) # splitLines (value e)) @
     [''```'', []]"
proof -
  have 1: "splitLines (''### `'' @ entryName e @ ''`'') = [''### `'' @ entryName e @ ''`'']"
    using assms by (intro splitLines_no_newline) (simp add: plainEntry_def plainName_def)
  have 2: "splitLines (''```'' @ (case language e of None \<Rightarrow> [] | Some l \<Rightarrow> l)) =
      [''```'' @ (case language e of None \<Rightarrow> [] | Some l \<Rightarrow> l)]"
    using assms
    by (intro splitLines_no_newline) (simp add: plainEntry_def split: option.splits)
  have 3: "splitLines ''```'' = [''```'']"
    by simp
  show ?thesis
    unfolding entryLines_def by (rule flat_block [OF 1 2 3])
qed

lemma loaded_entry:
  "\<lparr>testName = testName e, entryName = entryName e, language = language e,
    value = value e, used = False\<rparr> = e\<lparr>used := False\<rparr>"
  by (cases e) simp

lemma plainEntry_language:
  "plainEntry e \<Longrightarrow>
   (if (case language e of None \<Rightarrow> [] | Some l \<Rightarrow> l) = [] then None
    else Some (case language e of None \<Rightarrow> [] | Some l \<Rightarrow> l)) = language e"
  by (simp add: plainEntry_def split: option.splits)

lemma parse_entry_block:
  assumes "plainEntry e"
  shows "\<exists>N. parseLines None k
           ((((''```'' @ (case language e of None \<Rightarrow> [] | Some l \<Rightarrow> l)) # splitLines (value e)) @
             ''```'' # [] # rest)) =
         consNode (CodeBlock (language e) (value e) k) (parseLines None N rest)"
proof -
  have nf: "\<not> hasFence (value e)"
    using assms by (simp add: plainEntry_def)
  show ?thesis
    by (subst parse_block [OF nf], subst parse_blank, subst plainEntry_language [OF assms]) blast
qed

lemma walkTest_pair:
  "trim name = name \<Longrightarrow>
   walkTest t ents (Heading 3 (CHR 0x60 # name @ [CHR 0x60]) k # CodeBlock lang v k' # ns) =
   walkTest t
     (ents(buildEntriesKey t name \<mapsto>
        \<lparr>testName = t, entryName = name, language = lang, value = v, used = False\<rparr>)) ns"
  by (simp add: cleanHeading_wrapped)

lemma loadsInTest_entry:
  assumes R: "loadsInTest (testName e) rest F" and P: "plainEntry e"
    and H: "\<not> (entryName e = ''0'' \<and> n = 1)"
  shows "loadsInTest (testName e)
           (concat (map splitLines (entryLines n (entryName e) e)) @ rest)
           (\<lambda>ents. F (storeEntry ents e))"
  unfolding loadsInTest_def
proof
  fix k
  let ?lang = "case language e of None \<Rightarrow> [] | Some l \<Rightarrow> l"
  let ?block = "((''```'' @ ?lang) # splitLines (value e)) @ ''```'' # [] # rest"
  have lines: "concat (map splitLines (entryLines n (entryName e) e)) @ rest =
      (''### `'' @ entryName e @ ''`'') # [] # ?block"
    using flat_entryLines [OF P, of n] H by simp
  obtain N where N: "parseLines None (Suc (Suc k)) ?block =
      consNode (CodeBlock (language e) (value e) (Suc (Suc k))) (parseLines None N rest)"
    using parse_entry_block [OF P] by blast
  from R obtain ns where ns: "parseLines None N rest = Inr ns"
    and walk: "\<forall>ents. \<exists>ents' ns'. walkTest (testName e) ents ns = (None, ents', ns') \<and>
          walkNodes ents' ns' = (None, F ents)"
    unfolding loadsInTest_def by blast
  have parse: "parseLines None k (concat (map splitLines (entryLines n (entryName e) e)) @ rest) =
      Inr (Heading 3 (CHR 0x60 # entryName e @ [CHR 0x60]) k #
           CodeBlock (language e) (value e) (Suc (Suc k)) # ns)"
    unfolding lines
    by (subst parse_heading3, subst parse_blank, subst N) (simp add: ns consNode_def)
  have tr: "trim (entryName e) = entryName e"
    using P by (simp add: plainEntry_def plainName_def)
  have "\<exists>ents' ns'.
          walkTest (testName e) ents
            (Heading 3 (CHR 0x60 # entryName e @ [CHR 0x60]) k #
             CodeBlock (language e) (value e) (Suc (Suc k)) # ns) = (None, ents', ns') \<and>
          walkNodes ents' ns' = (None, F (storeEntry ents e))" for ents
    unfolding walkTest_pair [OF tr] loaded_entry
    using walk by (simp add: storeEntry_def)
  with parse show "\<exists>ns. parseLines None k
        (concat (map splitLines (entryLines n (entryName e) e)) @ rest) = Inr ns \<and>
       (\<forall>ents. \<exists>ents' ns'. walkTest (testName e) ents ns = (None, ents', ns') \<and>
          walkNodes ents' ns' = (None, F (storeEntry ents e)))"
    by blast
qed

lemma loadsInTest_single:
  assumes R: "loadsAs rest F" and P: "plainEntry e" and H: "entryName e = ''0''"
  shows "loadsInTest (testName e)
           (concat (map splitLines (entryLines 1 (entryName e) e)) @ rest)
           (\<lambda>ents. F (storeEntry ents e))"
  unfolding loadsInTest_def
proof
  fix k
  let ?lang = "case language e of None \<Rightarrow> [] | Some l \<Rightarrow> l"
  let ?block = "((''```'' @ ?lang) # splitLines (value e)) @ ''```'' # [] # rest"
  have lines: "concat (map splitLines (entryLines 1 (entryName e) e)) @ rest = ?block"
    using flat_entryLines [OF P, of 1] H by simp
  obtain N where N: "parseLines None k ?block =
      consNode (CodeBlock (language e) (value e) k) (parseLines None N rest)"
    using parse_entry_block [OF P] by blast
  from R obtain ns where ns: "parseLines None N rest = Inr ns"
    and walk: "\<forall>ents. walkNodes ents ns = (None, F ents)"
    unfolding loadsAs_def by blast
  have parse: "parseLines None k (concat (map splitLines (entryLines 1 (entryName e) e)) @ rest) =
      Inr (CodeBlock (language e) (value e) k # ns)"
    unfolding lines by (subst N) (simp add: ns consNode_def)
  have rec: "\<lparr>testName = testName e, entryName = ''0'', language = language e,
          value = value e, used = False\<rparr> = e\<lparr>used := False\<rparr>"
    using loaded_entry [of e] H by simp
  have "walkTest (testName e) ents (CodeBlock (language e) (value e) k # ns) =
          (None, storeEntry ents e, ns)" for ents
    unfolding storeEntry_def H walkTest.simps rec by (rule refl)
  with walk have "\<exists>ents' ns'.
          walkTest (testName e) ents (CodeBlock (language e) (value e) k # ns) = (None, ents', ns') \<and>
          walkNodes ents' ns' = (None, F (storeEntry ents e))" for ents
    by blast
  with parse show "\<exists>ns. parseLines None k
        (concat (map splitLines (entryLines 1 (entryName e) e)) @ rest) = Inr ns \<and>
       (\<forall>ents. \<exists>ents' ns'. walkTest (testName e) ents ns = (None, ents', ns') \<and>
          walkNodes ents' ns' = (None, F (storeEntry ents e)))"
    by blast
qed

lemma set_insertBy: "set (insertBy cmp x ys) = insert x (set ys)"
  by (induction ys) auto

lemma set_sortBy: "set (sortBy cmp xs) = set xs"
  by (induction xs) (simp_all add: sortBy_def set_insertBy)

lemma length_insertBy: "length (insertBy cmp x ys) = Suc (length ys)"
  by (induction ys) auto

lemma length_sortBy: "length (sortBy cmp xs) = length xs"
  by (induction xs) (simp_all add: sortBy_def length_insertBy)

lemma loadsInTest_names:
  assumes "loadsInTest t rest F"
    and "\<forall>name\<in>set names. \<exists>e. map_of grp name = Some e \<and> testName e = t \<and>
           entryName e = name \<and> plainEntry e"
    and "\<forall>name\<in>set names. \<not> (name = ''0'' \<and> n = 1)"
  shows "loadsInTest t
           (concat (map splitLines (concat (map (entryLinesOf grp n) names))) @ rest)
           (\<lambda>ents. F (foldl storeEntry ents (groupEntries grp names)))"
  using assms(2,3)
proof (induction names)
  case Nil
  from assms(1) show ?case by (simp add: groupEntries_def)
next
  case (Cons name names)
  from Cons.prems obtain e where e: "map_of grp name = Some e" "testName e = t"
    "entryName e = name" "plainEntry e"
    by auto
  let ?rest = "concat (map splitLines (concat (map (entryLinesOf grp n) names))) @ rest"
  have IH: "loadsInTest (testName e) ?rest
      (\<lambda>ents. F (foldl storeEntry ents (groupEntries grp names)))"
    using Cons.IH Cons.prems e(2) by simp
  have H: "\<not> (entryName e = ''0'' \<and> n = 1)"
    using Cons.prems(2) e(3) by simp
  have "loadsInTest (testName e)
      (concat (map splitLines (entryLines n (entryName e) e)) @ ?rest)
      (\<lambda>ents. F (foldl storeEntry (storeEntry ents e) (groupEntries grp names)))"
    using loadsInTest_entry [OF IH e(4) H] .
  moreover have "entryLinesOf grp n name = entryLines n (entryName e) e"
    using e by (simp add: entryLinesOf_def)
  moreover have "groupEntries grp (name # names) = e # groupEntries grp names"
    using e by (simp add: groupEntries_def)
  ultimately show ?case
    using e(2) by simp
qed

lemma parse_heading1:
  "parseLines None n ((''# `'' @ t @ ''`'') # rest) =
     consNode (Heading 1 (CHR 0x60 # t @ [CHR 0x60]) n) (parseLines None (Suc n) rest)"
  by (simp add: trim_heading)

lemma loadsAs_heading2:
  assumes "loadsInTest t body F" and "trim t = t"
  shows "loadsAs ((''## `'' @ t @ ''`'') # [] # body) F"
  unfolding loadsAs_def
proof
  fix n
  from assms(1) obtain ns where ns: "parseLines None (Suc (Suc n)) body = Inr ns"
    and walk: "\<forall>ents. \<exists>ents' ns'. walkTest t ents ns = (None, ents', ns') \<and>
          walkNodes ents' ns' = (None, F ents)"
    unfolding loadsInTest_def by blast
  have parse: "parseLines None n ((''## `'' @ t @ ''`'') # [] # body) =
      Inr (Heading 2 (CHR 0x60 # t @ [CHR 0x60]) n # ns)"
    by (subst parse_heading2, subst parse_blank) (simp add: ns consNode_def)
  have "walkNodes ents (Heading 2 (CHR 0x60 # t @ [CHR 0x60]) n # ns) = (None, F ents)" for ents
  proof -
    from walk obtain ents' ns' where "walkTest t ents ns = (None, ents', ns')"
      "walkNodes ents' ns' = (None, F ents)"
      by blast
    then show ?thesis
      by (simp add: cleanHeading_wrapped [OF assms(2)])
  qed
  with parse show "\<exists>ns. parseLines None n ((''## `'' @ t @ ''`'') # [] # body) = Inr ns \<and>
       (ns = [] \<or> (\<exists>ht k. hd ns = Heading 2 ht k)) \<and>
       (\<forall>ents. walkNodes ents ns = (None, F ents))"
    by auto
qed

lemma loadsAs_test:
  assumes R: "loadsAs rest F" and G: "map_of G t = Some grp" and P: "plainGroup t grp"
  shows "loadsAs (concat (map splitLines (testLinesOf cmp G t)) @ rest)
           (\<lambda>ents. F (foldl storeEntry ents (testEntries cmp G t)))"
proof -
  let ?names = "sortBy cmp (map fst grp)"
  let ?n = "length ?names"
  let ?body = "concat (map splitLines (concat (map (entryLinesOf grp ?n) ?names))) @ rest"
  let ?F = "\<lambda>ents. F (foldl storeEntry ents (groupEntries grp ?names))"
  have names: "set ?names = fst ` set grp"
    by (simp add: set_sortBy)
  have all: "\<forall>name\<in>set ?names. \<exists>e. map_of grp name = Some e \<and> testName e = t \<and>
           entryName e = name \<and> plainEntry e"
    using P unfolding names plainGroup_def by blast
  have tn: "plainName t"
    using P by (simp add: plainGroup_def)
  have body: "loadsInTest t ?body ?F"
  proof (cases "?names = [''0'']")
    case True
    then have "''0'' \<in> set ?names"
      by simp
    with all obtain e where e: "map_of grp ''0'' = Some e" "testName e = t"
      "entryName e = ''0''" "plainEntry e"
      by blast
    have "loadsInTest (testName e)
        (concat (map splitLines (entryLines 1 (entryName e) e)) @ rest)
        (\<lambda>ents. F (storeEntry ents e))"
      using loadsInTest_single [OF R e(4) e(3)] .
    moreover have "concat (map (entryLinesOf grp ?n) ?names) = entryLines 1 (entryName e) e"
      using e True by (simp add: entryLinesOf_def)
    moreover have "groupEntries grp ?names = [e]"
      using e True by (simp add: groupEntries_def)
    ultimately show ?thesis
      using e(2) by simp
  next
    case False
    have "\<forall>name\<in>set ?names. \<not> (name = ''0'' \<and> ?n = 1)"
    proof (intro ballI notI)
      fix name
      assume "name \<in> set ?names" and "name = ''0'' \<and> ?n = 1"
      then have "?names = [''0'']"
        by (cases ?names) auto
      with False show False by simp
    qed
    with loadsInTest_names [OF loadsInTest_of_loadsAs [OF R] all] show ?thesis
      by blast
  qed
  have h2: "splitLines (''## `'' @ t @ ''`'') = [''## `'' @ t @ ''`'']"
    using tn by (intro splitLines_no_newline) (simp add: plainName_def)
  have "concat (map splitLines (testLinesOf cmp G t)) @ rest =
      (''## `'' @ t @ ''`'') # [] # ?body"
    unfolding testLinesOf_def using G h2 by simp
  moreover have "testEntries cmp G t = groupEntries grp ?names"
    using G by (simp add: testEntries_def)
  moreover have "loadsAs ((''## `'' @ t @ ''`'') # [] # ?body) ?F"
    using body tn by (intro loadsAs_heading2) (simp_all add: plainName_def)
  ultimately show ?thesis
    by simp
qed

lemma loadsAs_tests:
  assumes "loadsAs rest F"
    and "\<forall>t\<in>set ts. \<exists>grp. map_of G t = Some grp \<and> plainGroup t grp"
  shows "loadsAs (concat (map splitLines (concat (map (testLinesOf cmp G) ts))) @ rest)
           (\<lambda>ents. F (foldl storeEntry ents (concat (map (testEntries cmp G) ts))))"
  using assms(2)
proof (induction ts)
  case Nil
  from assms(1) show ?case by simp
next
  case (Cons t ts)
  from Cons.prems obtain grp where grp: "map_of G t = Some grp" "plainGroup t grp"
    by auto
  have IH: "loadsAs (concat (map splitLines (concat (map (testLinesOf cmp G) ts))) @ rest)
           (\<lambda>ents. F (foldl storeEntry ents (concat (map (testEntries cmp G) ts))))"
    using Cons by simp
  from loadsAs_test [OF IH grp, of cmp] show ?case
    by simp
qed

lemma load_header:
  assumes R: "loadsAs rest F"
    and "CHR 0x0A \<notin> set basename" and "CHR 0x0A \<notin> set relative"
  shows "\<exists>ns. parseLines None n
           (concat (map splitLines (headerLines basename relative)) @ rest) = Inr ns \<and>
         (\<forall>ents. walkNodes ents ns = (None, F ents))"
proof -
  let ?note = "''**DO NOT MODIFY**. This file has been autogenerated. Run `rome test '' @ relative
        @ '' --update-snapshots` to update.''"
  have 1: "splitLines (''# `'' @ basename @ ''`'') = [''# `'' @ basename @ ''`'']"
    using assms(2) by (intro splitLines_no_newline) simp
  have 2: "splitLines ?note = [?note]"
    using assms(3) by (intro splitLines_no_newline) simp
  have lines: "concat (map splitLines (headerLines basename relative)) @ rest =
      (''# `'' @ basename @ ''`'') # [] # ?note # [] # rest"
    unfolding headerLines_def using 1 2 by simp
  have skipped: "parseLines None k (?note # more) = parseLines None (Suc k) more" for k more
    by simp
  from R obtain ns where ns: "parseLines None (Suc (Suc (Suc (Suc n)))) rest = Inr ns"
    and walk: "\<forall>ents. walkNodes ents ns = (None, F ents)"
    unfolding loadsAs_def by blast
  have "parseLines None n (concat (map splitLines (headerLines basename relative)) @ rest) =
      Inr (Heading 1 (CHR 0x60 # basename @ [CHR 0x60]) n # ns)"
    unfolding lines
    by (subst parse_heading1, subst parse_blank, subst skipped, subst parse_blank)
       (simp add: ns consNode_def)
  with walk show ?thesis by simp
qed

lemma parse_buildSnapshot:
  assumes "\<forall>t\<in>set (map fst (foldl addEntry [] es)).
             \<exists>grp. map_of (foldl addEntry [] es) t = Some grp \<and> plainGroup t grp"
    and "CHR 0x0A \<notin> set basename" and "CHR 0x0A \<notin> set relative"
  shows "\<exists>ns. parseSnapshotText (buildSnapshot cmp basename relative es) = Inr ns \<and>
           walkNodes Map.empty ns =
             (None, foldl storeEntry Map.empty
                (concat (map (testEntries cmp (foldl addEntry [] es))
                   (sort (map fst (foldl addEntry [] es))))))"
proof -
  let ?G = "foldl addEntry [] es"
  let ?ts = "sort (map fst ?G)"
  let ?tests = "concat (map (testLinesOf cmp ?G) ?ts)"
  have "loadsAs (concat (map splitLines ?tests) @ [])
      (\<lambda>ents. foldl storeEntry ents (concat (map (testEntries cmp ?G) ?ts)))"
    using assms(1) by (intro loadsAs_tests [OF loadsAs_Nil]) simp
  from load_header [OF this assms(2,3), of 1] obtain ns where
    ns: "parseLines None 1
           (concat (map splitLines (headerLines basename relative)) @
            concat (map splitLines ?tests) @ []) = Inr ns"
      "\<forall>ents. walkNodes ents ns =
         (None, foldl storeEntry ents (concat (map (testEntries cmp ?G) ?ts)))"
    by blast
  have "headerLines basename relative @ ?tests \<noteq> []"
    by (simp add: headerLines_def)
  then have "splitLines (buildSnapshot cmp basename relative es) =
      concat (map splitLines (headerLines basename relative)) @ concat (map splitLines ?tests) @ []"
    unfolding buildSnapshot_lines by (subst splitLines_joinLines) simp_all
  with ns show ?thesis
    by (simp add: parseSnapshotText_def)
qed

subsection \<open>The groups of the first loop\<close>

lemma update_not_Nil: "AList.update k v al \<noteq> []"
  by (cases al) auto

lemma groupsOf_addEntry:
  assumes G: "groupsOf G S" and u: "used e"
    and new: "\<forall>e'\<in>S. (testName e', entryName e') \<noteq> (testName e, entryName e)"
  shows "groupsOf (addEntry G e) (insert e S)"
proof -
  let ?old = "case map_of G (testName e) of None \<Rightarrow> [] | Some es \<Rightarrow> es"
  let ?grp = "AList.update (entryName e) e ?old"
  have m: "map_of (addEntry G e) = (map_of G)(testName e \<mapsto> ?grp)"
    using u by (simp add: addEntry_def Let_def update_conv')
  have g: "map_of ?grp = (map_of ?old)(entryName e \<mapsto> e)"
    by (simp add: update_conv')
  have old: "testName e' = testName e \<and> entryName e' = n \<and> e' \<in> S"
    if "map_of ?old n = Some e'" for n e'
    using that G unfolding groupsOf_def by (cases "map_of G (testName e)") auto
  have 1: "grp \<noteq> [] \<and>
        (\<forall>n e'. map_of grp n = Some e' \<longrightarrow> testName e' = t \<and> entryName e' = n \<and> e' \<in> insert e S)"
    if "map_of (addEntry G e) t = Some grp" for t grp
  proof (cases "t = testName e")
    case True
    with that have eq: "grp = ?grp"
      unfolding m by simp
    have inner: "testName e' = t \<and> entryName e' = n \<and> e' \<in> insert e S"
      if look: "map_of ?grp n = Some e'" for n e'
    proof (cases "n = entryName e")
      case True
      with look have "e' = e"
        unfolding g by simp
      with True \<open>t = testName e\<close> show ?thesis by simp
    next
      case False
      with look have "map_of ?old n = Some e'"
        unfolding g by simp
      from old [OF this] \<open>t = testName e\<close> show ?thesis by simp
    qed
    show ?thesis
      unfolding eq
    proof (rule conjI)
      show "?grp \<noteq> []"
        by (rule update_not_Nil)
    next
      show "\<forall>n e'. map_of ?grp n = Some e' \<longrightarrow>
          testName e' = t \<and> entryName e' = n \<and> e' \<in> insert e S"
      proof (intro allI impI)
        fix n e'
        assume "map_of ?grp n = Some e'"
        then show "testName e' = t \<and> entryName e' = n \<and> e' \<in> insert e S"
          by (rule inner)
      qed
    qed
  next
    case False
    with that have "map_of G t = Some grp"
      unfolding m by simp
    with G have "grp \<noteq> [] \<and>
        (\<forall>n e'. map_of grp n = Some e' \<longrightarrow> testName e' = t \<and> entryName e' = n \<and> e' \<in> S)"
      unfolding groupsOf_def by blast
    then show ?thesis by blast
  qed
  have 2: "\<exists>grp. map_of (addEntry G e) (testName e') = Some grp \<and>
              map_of grp (entryName e') = Some e'"
    if "e' \<in> insert e S" for e'
  proof (cases "e' = e")
    case True
    have "map_of (addEntry G e) (testName e) = Some ?grp"
      unfolding m by simp
    moreover have "map_of ?grp (entryName e) = Some e"
      unfolding g by simp
    ultimately show ?thesis
      unfolding True by blast
  next
    case False
    with that have S: "e' \<in> S" by simp
    with G obtain grp where grp: "map_of G (testName e') = Some grp"
      "map_of grp (entryName e') = Some e'"
      unfolding groupsOf_def by blast
    show ?thesis
    proof (cases "testName e' = testName e")
      case True
      with new S have ne: "entryName e' \<noteq> entryName e" by auto
      from True grp(1) have "?old = grp" by simp
      with grp(2) ne have "map_of ?grp (entryName e') = Some e'"
        unfolding g by simp
      moreover have "map_of (addEntry G e) (testName e') = Some ?grp"
        unfolding m True by simp
      ultimately show ?thesis by blast
    next
      case False
      with grp(1) have "map_of (addEntry G e) (testName e') = Some grp"
        unfolding m by simp
      with grp(2) show ?thesis by blast
    qed
  qed
  show ?thesis
    unfolding groupsOf_def
  proof (rule conjI)
    show "\<forall>t grp. map_of (addEntry G e) t = Some grp \<longrightarrow>
        grp \<noteq> [] \<and>
        (\<forall>n e'. map_of grp n = Some e' \<longrightarrow>
           testName e' = t \<and> entryName e' = n \<and> e' \<in> insert e S)"
    proof (intro allI impI)
      fix t grp
      assume "map_of (addEntry G e) t = Some grp"
      from 1 [OF this] show "grp \<noteq> [] \<and>
        (\<forall>n e'. map_of grp n = Some e' \<longrightarrow>
           testName e' = t \<and> entryName e' = n \<and> e' \<in> insert e S)" .
    qed
  next
    show "\<forall>e'\<in>insert e S. \<exists>grp. map_of (addEntry G e) (testName e') = Some grp \<and>
              map_of grp (entryName e') = Some e'"
    proof
      fix e'
      assume "e' \<in> insert e S"
      from 2 [OF this] show "\<exists>grp. map_of (addEntry G e) (testName e') = Some grp \<and>
              map_of grp (entryName e') = Some e'" .
    qed
  qed
qed

lemma groupsOf_foldl:
  assumes "groupsOf G S" and "\<forall>e\<in>set es. used e"
    and "distinct (map (\<lambda>e. (testName e, entryName e)) es)"
    and "\<forall>e\<in>set es. \<forall>e'\<in>S. (testName e', entryName e') \<noteq> (testName e, entryName e)"
  shows "groupsOf (foldl addEntry G es) (S \<union> set es)"
  using assms
proof (induction es arbitrary: G S)
  case Nil
  then show ?case by simp
next
  case (Cons e es)
  have "groupsOf (addEntry G e) (insert e S)"
    using Cons.prems by (intro groupsOf_addEntry) auto
  moreover have "\<forall>x\<in>set es. \<forall>e'\<in>insert e S.
      (testName e', entryName e') \<noteq> (testName x, entryName x)"
    using Cons.prems(3,4) by (auto simp: image_iff)
  ultimately have "groupsOf (foldl addEntry (addEntry G e) es) (insert e S \<union> set es)"
    using Cons.prems by (intro Cons.IH) auto
  then show ?case by simp
qed

lemma groupsOf_entries:
  assumes "\<forall>e\<in>set es. used e"
    and "distinct (map (\<lambda>e. (testName e, entryName e)) es)"
  shows "groupsOf (foldl addEntry [] es) (set es)"
proof -
  have "groupsOf [] {}"
    by (simp add: groupsOf_def)
  from groupsOf_foldl [OF this assms] show ?thesis by simp
qed

lemma map_of_fst: "name \<in> fst ` set al \<Longrightarrow> \<exists>v. map_of al name = Some v"
  by (cases "map_of al name") (auto simp: map_of_eq_None_iff)

lemma groupsOf_plain:
  assumes G: "groupsOf G S" and P: "\<forall>e\<in>S. plainEntry e" and t: "t \<in> set (map fst G)"
  shows "\<exists>grp. map_of G t = Some grp \<and> plainGroup t grp"
proof -
  from t obtain grp where grp: "map_of G t = Some grp"
    using map_of_fst [of t G] by auto
  with G have ne: "grp \<noteq> []"
    and ent: "\<forall>n e. map_of grp n = Some e \<longrightarrow> testName e = t \<and> entryName e = n \<and> e \<in> S"
    unfolding groupsOf_def by blast+
  from ne obtain n e0 rest where "grp = (n, e0) # rest"
    by (cases grp) auto
  then have "map_of grp n = Some e0" by simp
  with ent have "testName e0 = t" and "e0 \<in> S"
    by blast+
  with P have "plainName t"
    by (auto simp: plainEntry_def)
  moreover have "\<exists>e. map_of grp name = Some e \<and> testName e = t \<and> entryName e = name \<and>
      plainEntry e" if "name \<in> fst ` set grp" for name
    using map_of_fst [OF that] ent P by blast
  ultimately have "plainGroup t grp"
    using ne unfolding plainGroup_def by blast
  with grp show ?thesis by blast
qed

lemma set_groupEntries:
  "set (groupEntries grp names) = {e. \<exists>name\<in>set names. map_of grp name = Some e}"
  by (auto simp: groupEntries_def split: option.splits)

lemma groupsOf_emitted:
  assumes G: "groupsOf G S"
  shows "set (concat (map (testEntries cmp G) (sort (map fst G)))) = S"
proof (intro equalityI subsetI)
  fix e
  assume "e \<in> set (concat (map (testEntries cmp G) (sort (map fst G))))"
  then obtain t where "e \<in> set (testEntries cmp G t)"
    by auto
  then obtain grp name where "map_of G t = Some grp" "map_of grp name = Some e"
    by (cases "map_of G t") (auto simp: testEntries_def set_groupEntries)
  with G show "e \<in> S"
    unfolding groupsOf_def by blast
next
  fix e
  assume "e \<in> S"
  with G obtain grp where grp: "map_of G (testName e) = Some grp"
    "map_of grp (entryName e) = Some e"
    unfolding groupsOf_def by blast
  have "testName e \<in> fst ` set G"
    using map_of_SomeD [OF grp(1)] by (rule image_eqI [rotated]) simp
  then have "testName e \<in> set (sort (map fst G))"
    by simp
  have "entryName e \<in> fst ` set grp"
    using map_of_SomeD [OF grp(2)] by (rule image_eqI [rotated]) simp
  have "entryName e \<in> set (sortBy cmp (map fst grp))"
    using \<open>entryName e \<in> fst ` set grp\<close> by (simp add: set_sortBy)
  with grp(2) have "e \<in> set (groupEntries grp (sortBy cmp (map fst grp)))"
    unfolding set_groupEntries by blast
  with grp(1) have "e \<in> set (testEntries cmp G (testName e))"
    by (simp add: testEntries_def)
  with \<open>testName e \<in> set (sort (map fst G))\<close>
  have "\<exists>t\<in>set (sort (map fst G)). e \<in> set (testEntries cmp G t)"
    by blast
  then show "e \<in> set (concat (map (testEntries cmp G) (sort (map fst G))))"
    by (simp only: set_concat set_map UN_iff bex_simps image_iff)
qed

subsection \<open>The entries stored\<close>

lemma foldl_storeEntry_other:
  "k \<notin> (\<lambda>e. buildEntriesKey (testName e) (entryName e)) ` set L \<Longrightarrow>
   foldl storeEntry m L k = m k"
  by (induction L rule: rev_induct) (auto simp: storeEntry_def)

lemma foldl_storeEntry_stored:
  "inj_on (\<lambda>e. buildEntriesKey (testName e) (entryName e)) (set L) \<Longrightarrow> e \<in> set L \<Longrightarrow>
   foldl storeEntry m L (buildEntriesKey (testName e) (entryName e)) = Some (e\<lparr>used := False\<rparr>)"
proof (induction L rule: rev_induct)
  case Nil
  then show ?case by simp
next
  case (snoc x L)
  show ?case
  proof (cases "x = e")
    case True
    then show ?thesis by (simp add: storeEntry_def)
  next
    case False
    with snoc.prems have e: "e \<in> set L" by simp
    from snoc.prems(1) have inj: "inj_on (\<lambda>e. buildEntriesKey (testName e) (entryName e)) (set L)"
      by (simp add: inj_on_def)
    from snoc.prems(1) e False
    have "buildEntriesKey (testName x) (entryName x) \<noteq> buildEntriesKey (testName e) (entryName e)"
      by (auto simp: inj_on_def)
    with snoc.IH [OF inj e] show ?thesis by (simp add: storeEntry_def)
  qed
qed

lemma ran_foldl_storeEntry:
  assumes "inj_on (\<lambda>e. buildEntriesKey (testName e) (entryName e)) (set L)"
  shows "ran (foldl storeEntry Map.empty L) = (\<lambda>e. e\<lparr>used := False\<rparr>) ` set L"
proof (intro equalityI subsetI)
  fix v
  assume "v \<in> ran (foldl storeEntry Map.empty L)"
  then obtain k where k: "foldl storeEntry Map.empty L k = Some v"
    by (auto simp: ran_def)
  have "k \<in> (\<lambda>e. buildEntriesKey (testName e) (entryName e)) ` set L"
  proof (rule ccontr)
    assume "k \<notin> (\<lambda>e. buildEntriesKey (testName e) (entryName e)) ` set L"
    from foldl_storeEntry_other [OF this, of Map.empty] k show False by simp
  qed
  then obtain e where e: "e \<in> set L" "k = buildEntriesKey (testName e) (entryName e)"
    by blast
  from foldl_storeEntry_stored [OF assms e(1), of Map.empty] k e(2)
  have "v = e\<lparr>used := False\<rparr>" by simp
  with e(1) show "v \<in> (\<lambda>e. e\<lparr>used := False\<rparr>) ` set L" by blast
next
  fix v
  assume "v \<in> (\<lambda>e. e\<lparr>used := False\<rparr>) ` set L"
  then obtain e where e: "e \<in> set L" "v = e\<lparr>used := False\<rparr>"
    by blast
  from foldl_storeEntry_stored [OF assms e(1), of Map.empty] e(2)
  show "v \<in> ran (foldl storeEntry Map.empty L)"
    by (auto simp: ran_def)
qed

subsection \<open>The claim\<close>

text \<open>
  Claim C1 as stated fails. \<^verbatim>\<open>cleanHeading\<close> trims the names it reads, so a used
  entry whose test name ends in a blank is loaded under the trimmed name; and an
  entry with the empty language builds the same text as one with no language, so no
  parser can tell them apart.
\<close>

theorem buildSnapshot_roundtrip_fails:
  "used paddedEntry \<and> testName paddedEntry = ''t '' \<and>
   fst (loadSnapshot
          (demoExternals (buildSnapshot demoCompare ''x.test.md'' ''d/x.test.ts'' [paddedEntry]))
          (demoManager False False False Map.empty) demoPath) =
     Inr (Some \<lparr>existsOnDisk = True, snapshot_used = False,
            raw = buildSnapshot demoCompare ''x.test.md'' ''d/x.test.ts'' [paddedEntry],
            entries = [''t#0'' \<mapsto> \<lparr>testName = ''t'', entryName = ''0'', language = None,
                                   value = ''1'', used = False\<rparr>]\<rparr>) \<and>
   buildSnapshot demoCompare ''x.test.md'' ''d/x.test.ts'' [paddedEntry\<lparr>language := Some []\<rparr>] =
     buildSnapshot demoCompare ''x.test.md'' ''d/x.test.ts'' [paddedEntry]"
proof -
  have built: "buildSnapshot demoCompare ''x.test.md'' ''d/x.test.ts'' [paddedEntry] =
      joinLines [''# `x.test.md`'', [],
        ''**DO NOT MODIFY**. This file has been autogenerated. Run `rome test d/x.test.ts --update-snapshots` to update.'',
        [], ''## `t `'', [], ''```'', ''1'', ''```'', []]"
    by (simp add: buildSnapshot_def paddedEntry_def addEntry_def pushTest_def pushEntry_def
        pushNewline_def sortBy_def Let_def)
  have same: "buildSnapshot demoCompare ''x.test.md'' ''d/x.test.ts''
        [paddedEntry\<lparr>language := Some []\<rparr>] =
      buildSnapshot demoCompare ''x.test.md'' ''d/x.test.ts'' [paddedEntry]"
    by (simp add: buildSnapshot_def paddedEntry_def addEntry_def pushTest_def pushEntry_def
        pushNewline_def sortBy_def Let_def)
  have nodes: "parseSnapshotText
      (buildSnapshot demoCompare ''x.test.md'' ''d/x.test.ts'' [paddedEntry]) =
      Inr [Heading 1 ''`x.test.md`'' 1, Heading 2 ''`t `'' 5, CodeBlock None ''1'' 7]"
    unfolding built
    by (simp add: parseSnapshotText_def consNode_def trim_def isWhiteSpace_def)
  have "fst (loadSnapshot
          (demoExternals (buildSnapshot demoCompare ''x.test.md'' ''d/x.test.ts'' [paddedEntry]))
          (demoManager False False False Map.empty) demoPath) =
     Inr (Some \<lparr>existsOnDisk = True, snapshot_used = False,
            raw = buildSnapshot demoCompare ''x.test.md'' ''d/x.test.ts'' [paddedEntry],
            entries = [''t#0'' \<mapsto> \<lparr>testName = ''t'', entryName = ''0'', language = None,
                                   value = ''1'', used = False\<rparr>]\<rparr>)"
    by (simp add: loadSnapshot_def demoExternals_def demoManager_def Let_def nodes
        cleanHeading_def trim_def isWhiteSpace_def buildEntriesKey_def)
  with same show ?thesis
    by (simp add: paddedEntry_def)
qed

text \<open>
  Claim C1, amended. Let the entries \<open>es\<close> be used, with pairwise distinct keys
  (test name, hash, entry name), and plain: names without white space at their ends
  and without line feed, a language that is absent or non-empty and without line feed,
  a value without three backticks in a row. Let the base name and the relative path
  have no line feed. Then loading a file that holds the text \<^verbatim>\<open>buildSnapshot\<close> makes
  of \<open>es\<close>, with any comparison of entry names, succeeds, caches the record it returns,
  and the entries of that record are exactly the entries \<open>es\<close> with \<open>used\<close> set to
  false.
\<close>

theorem buildSnapshot_roundtrip:
  assumes "\<forall>e\<in>set es. used e \<and> plainEntry e"
    and "distinct (map (\<lambda>e. buildEntriesKey (testName e) (entryName e)) es)"
    and "CHR 0x0A \<notin> set basename" and "CHR 0x0A \<notin> set relative"
    and "exists ext path" and "snapshots m path = None"
    and "readFileText ext path = buildSnapshot naturalCompare basename relative es"
    and "parseSnapshot ext path = parseSnapshotText"
  shows "\<exists>s. loadSnapshot ext m path =
             (Inr (Some s), m\<lparr>snapshots := (snapshots m)(path \<mapsto> s)\<rparr>) \<and>
           ran (entries s) = (\<lambda>e. e\<lparr>used := False\<rparr>) ` set es"
proof -
  let ?G = "foldl addEntry [] es"
  let ?L = "concat (map (testEntries naturalCompare ?G) (sort (map fst ?G)))"
  have inj: "inj_on (\<lambda>e. buildEntriesKey (testName e) (entryName e)) (set es)"
    using assms(2) by (simp add: distinct_map)
  have "inj_on (\<lambda>e. (testName e, entryName e)) (set es)"
    using inj by (auto simp: inj_on_def)
  moreover have "distinct es"
    using assms(2) by (simp add: distinct_map)
  ultimately have "distinct (map (\<lambda>e. (testName e, entryName e)) es)"
    by (simp add: distinct_map)
  with assms(1) have G: "groupsOf ?G (set es)"
    by (intro groupsOf_entries) simp_all
  have L: "set ?L = set es"
    using G by (rule groupsOf_emitted)
  have "\<forall>t\<in>set (map fst ?G). \<exists>grp. map_of ?G t = Some grp \<and> plainGroup t grp"
    using groupsOf_plain [OF G] assms(1) by blast
  from parse_buildSnapshot [OF this assms(3,4), of naturalCompare]
  obtain ns where ns:
    "parseSnapshotText (buildSnapshot naturalCompare basename relative es) = Inr ns"
    "walkNodes Map.empty ns = (None, foldl storeEntry Map.empty ?L)"
    by blast
  let ?s = "\<lparr>existsOnDisk = True, snapshot_used = False,
             raw = buildSnapshot naturalCompare basename relative es,
             entries = foldl storeEntry Map.empty ?L\<rparr>"
  have "loadSnapshot ext m path = (Inr (Some ?s), m\<lparr>snapshots := (snapshots m)(path \<mapsto> ?s)\<rparr>)"
    using assms(5-8) ns by (simp add: loadSnapshot_def Let_def)
  moreover have "ran (entries ?s) = (\<lambda>e. e\<lparr>used := False\<rparr>) ` set es"
    using ran_foldl_storeEntry [of ?L] inj L by simp
  ultimately show ?thesis by blast
qed

theorem buildSnapshot_roundtrip_witness:
  "list_all (\<lambda>e. used e \<and> plainEntry e) roundTripEntries \<and>
   distinct (map (\<lambda>e. buildEntriesKey (testName e) (entryName e)) roundTripEntries) \<and>
   exists (demoExternals (buildSnapshot demoCompare ''x.test.md'' ''d/x.test.ts'' roundTripEntries))
     demoPath \<and>
   snapshots (demoManager False False False Map.empty) demoPath = None \<and>
   (\<exists>s. loadSnapshot
          (demoExternals (buildSnapshot demoCompare ''x.test.md'' ''d/x.test.ts'' roundTripEntries))
          (demoManager False False False Map.empty) demoPath =
        (Inr (Some s), demoManager False False False [demoPath \<mapsto> s]) \<and>
      ran (entries s) = (\<lambda>e. e\<lparr>used := False\<rparr>) ` set roundTripEntries)"
proof -
  let ?text = "buildSnapshot demoCompare ''x.test.md'' ''d/x.test.ts'' roundTripEntries"
  let ?m = "demoManager False False False Map.empty :: (string, int, unit) SnapshotManager"
  have 1: "\<forall>e\<in>set roundTripEntries. used e \<and> plainEntry e"
    by (simp add: roundTripEntries_def plainEntry_def plainName_def trim_def isWhiteSpace_def)
  have 2: "distinct (map (\<lambda>e. buildEntriesKey (testName e) (entryName e)) roundTripEntries)"
    by (simp add: roundTripEntries_def buildEntriesKey_def)
  have 3: "CHR 0x0A \<notin> set ''x.test.md''" and 4: "CHR 0x0A \<notin> set ''d/x.test.ts''"
    by simp_all
  have 5: "exists (demoExternals ?text) demoPath"
    by (simp add: demoExternals_def)
  have 6: "snapshots ?m demoPath = None"
    by (simp add: demoManager_def)
  have 7: "readFileText (demoExternals ?text) demoPath = ?text"
    by (simp add: demoExternals_def)
  have 8: "parseSnapshot (demoExternals ?text) demoPath = parseSnapshotText"
    by (simp add: demoExternals_def)
  have 9: "?m\<lparr>snapshots := (snapshots ?m)(demoPath \<mapsto> s)\<rparr> =
      demoManager False False False [demoPath \<mapsto> s]" for s
    by (simp add: demoManager_def)
  from buildSnapshot_roundtrip [OF 1 2 3 4 5 6 7 8] obtain s where
    "loadSnapshot (demoExternals ?text) ?m demoPath =
       (Inr (Some s), demoManager False False False [demoPath \<mapsto> s])"
    "ran (entries s) = (\<lambda>e. e\<lparr>used := False\<rparr>) ` set roundTripEntries"
    unfolding 9 by blast
  with 1 2 5 6 show ?thesis
    unfolding list_all_iff by blast
qed

end
